theory Spec2Isabelle
  imports Main "HOL-Library.Sublist"
begin

section \<open>The build staging directory of garden-service (src/build-dir.ts)\<close>

text \<open>
  The class \<open>BuildDir\<close> stages the inputs of a module's build: \<open>syncFromSrc\<close> mirrors the
  module's sources into its build directory, \<open>syncDependencyProducts\<close> copies artifacts of
  build dependencies into it, \<open>clear\<close> empties the build directory. Every method is
  asynchronous and works through three external services: \<open>fs-extra\<close> (\<open>ensureDir\<close>,
  \<open>emptyDir\<close>), the logger, and the \<open>rsync\<close> executable started through \<open>execa\<close>.

  The embedding keeps the code's control flow and records, for each call, the external
  operations it issues, turn by turn of the event loop, and the way its promise settles.
\<close>

subsection \<open>Data model\<close>

text \<open>\<open>FileCopySpec\<close>, \<open>BuildDependencyConfig\<close> and the parts of \<open>Module\<close> /
  \<open>ModuleConfig\<close> that build-dir.ts reads. The field \<open>name\<close> of a build dependency is
  called \<open>dep_name\<close> here, since a record field name is global in HOL.\<close>

record FileCopySpec =
  source :: string
  target :: string

record BuildDependencyConfig =
  dep_name :: string
  plugin :: "string option"
  copy :: "FileCopySpec list option"

record BuildConfig =
  dependencies :: "BuildDependencyConfig list option"

record Module =
  name :: string
  path :: string
  build :: BuildConfig

text \<open>The three constructor parameters of \<open>BuildDir\<close>.\<close>

record BuildDir =
  projectRoot :: string
  buildDirPath :: string
  buildMetadataDirPath :: string

subsection \<open>External operations, errors, promises\<close>

text \<open>The operations the class asks of the outside world, with their arguments:
  \<open>ensureDir(p)\<close>, \<open>emptyDir(p)\<close>, \<open>log.debug(msg)\<close> and \<open>execa(cmd, args)\<close>.\<close>

datatype io =
    EnsureDir string
  | EmptyDir string
  | Debug string
  | Execa string "string list"

text \<open>A promise rejects either with the \<open>ConfigurationError\<close> thrown by the code (message
  and the \<open>copySpec\<close> detail), or with the failure of an external operation.\<close>

datatype error =
    ConfigurationError string FileCopySpec
  | OperationFailed io

text \<open>
  What a call does over time. JavaScript runs one turn of the event loop to completion
  before the next one starts, so the operations issued in one turn are issued together,
  in program order; which of several waiting continuations runs next depends on which
  external operation completes first. \<open>Turn ops\<close> is a turn issuing \<open>ops\<close>, \<open>Then a b\<close>
  lets \<open>b\<close> start when all of \<open>a\<close> is over, \<open>Both a b\<close> lets \<open>a\<close> and \<open>b\<close> run concurrently.
\<close>

datatype later = Nothing | Turn "io list" | Then later later | Both later later

definition turn :: "io list \<Rightarrow> later" where
  "turn ops = (if ops = [] then Nothing else Turn ops)"

definition then_later :: "later \<Rightarrow> later \<Rightarrow> later" where
  "then_later a b = (if a = Nothing then b else if b = Nothing then a else Then a b)"

definition both :: "later \<Rightarrow> later \<Rightarrow> later" where
  "both a b = (if a = Nothing then b else if b = Nothing then a else Both a b)"

text \<open>
  An asynchronous call is described by the operations it issues before it returns its
  promise (they belong to the caller's turn), by what follows in later turns, and by the
  settlement of its promise: \<open>Inl e\<close> rejected with \<open>e\<close>, \<open>Inr v\<close> fulfilled with \<open>v\<close>.
\<close>

type_synonym activity = "io list \<times> later"

type_synonym 'a task = "activity \<times> (error + 'a)"

text \<open>The operations of a call in the order of the program text, call after call. This
  is the list of what is issued, not the order in time.\<close>

primrec issued_later :: "later \<Rightarrow> io list" where
  "issued_later Nothing = []"
| "issued_later (Turn ops) = ops"
| "issued_later (Then a b) = issued_later a @ issued_later b"
| "issued_later (Both a b) = issued_later a @ issued_later b"

definition issued :: "'a task \<Rightarrow> io list" where
  "issued t = (case fst t of (now, after) \<Rightarrow> now @ issued_later after)"

text \<open>The orders in time in which the operations of a call can be issued: the turns of
  concurrent parts interleave in every way, a turn is never split.\<close>

primrec turns :: "later \<Rightarrow> io list list set" where
  "turns Nothing = {[]}"
| "turns (Turn ops) = {[ops]}"
| "turns (Then a b) = {x @ y |x y. x \<in> turns a \<and> y \<in> turns b}"
| "turns (Both a b) = (\<Union>x\<in>turns a. \<Union>y\<in>turns b. shuffles x y)"

definition orders :: "'a task \<Rightarrow> io list set" where
  "orders t = (case fst t of (now, after) \<Rightarrow> {now @ concat ts |ts. ts \<in> turns after})"

text \<open>
  The host: Node's \<open>os.platform()\<close> and the functions of Node's \<open>path\<close> module that the
  class imports (their behaviour depends on the platform), the two helpers of this
  repository that are defined outside build-dir.ts (\<open>toCygwinPath\<close> of util/fs and
  \<open>getModuleKey\<close> of types/module), which external operations fail, and when a promise
  that rejects with a given error does so: among promises that are waited for together,
  the rejection that comes first in time is the one that is seen.
  \<open>parse_dir p\<close> stands for \<open>parse(p).dir\<close>; \<open>join\<close> and \<open>resolve\<close> are only ever
  called with two arguments.
\<close>

record host =
  platform :: string
  sep :: string
  isAbsolute :: "string \<Rightarrow> bool"
  join :: "string \<Rightarrow> string \<Rightarrow> string"
  parse_dir :: "string \<Rightarrow> string"
  resolve :: "string \<Rightarrow> string \<Rightarrow> string"
  relative :: "string \<Rightarrow> string \<Rightarrow> string"
  toCygwinPath :: "string \<Rightarrow> string"
  getModuleKey :: "string \<Rightarrow> string option \<Rightarrow> string"
  fails :: "io \<Rightarrow> bool"
  rejection_time :: "error \<Rightarrow> nat"

definition resolved :: "'a \<Rightarrow> 'a task" where
  "resolved v = (([], Nothing), Inr v)"

text \<open>\<open>const v = await m; k v\<close>: when \<open>m\<close> rejects, the rest of the function body does not
  run and the function's promise rejects with the same error. Otherwise the rest runs in
  a turn of its own, once \<open>m\<close> is over.\<close>

definition await :: "'a task \<Rightarrow> ('a \<Rightarrow> 'b task) \<Rightarrow> 'b task" where
  "await m k =
     (case m of
        ((now, after), Inl e) \<Rightarrow> ((now, after), Inl e)
      | ((now, after), Inr v) \<Rightarrow>
          (case k v of
             ((now', after'), r) \<Rightarrow>
               ((now, then_later after (then_later (turn now') after')), r)))"

definition perform :: "host \<Rightarrow> io \<Rightarrow> unit task" where
  "perform h op =
     (([op], Nothing), if fails h op then Inl (OperationFailed op) else Inr ())"

definition ensureDir :: "host \<Rightarrow> string \<Rightarrow> unit task" where
  "ensureDir h p = perform h (EnsureDir p)"

definition emptyDir :: "host \<Rightarrow> string \<Rightarrow> unit task" where
  "emptyDir h p = perform h (EmptyDir p)"

definition execa :: "host \<Rightarrow> string \<Rightarrow> string list \<Rightarrow> unit task" where
  "execa h cmd args = perform h (Execa cmd args)"

text \<open>\<open>log.debug(msg); t\<close>: the logger is called synchronously, in the turn in which \<open>t\<close>
  is called, and does not fail.\<close>

definition logged :: "string \<Rightarrow> 'a task \<Rightarrow> 'a task" where
  "logged msg t = (case t of ((now, after), r) \<Rightarrow> ((Debug msg # now, after), r))"

text \<open>
  \<open>bluebirdMap(xs, mapper)\<close> without a concurrency limit, on an array of plain values.
  Bluebird calls the mapper on the elements in index order, all in one turn. A mapper
  call either throws (\<open>Inl e\<close>) or returns a promise (\<open>Inr t\<close>). The first throw rejects
  the promise of \<open>map\<close> and ends the iteration: later elements never reach the mapper.
  The promises returned before are not cancelled, their operations are still carried
  out, concurrently. Without a throw, \<open>map\<close> rejects as soon as one returned promise
  rejects, with that rejection, and fulfils with the list of results when all have
  fulfilled.

  \<open>started\<close> gives the promises of the mapper calls made and the error thrown, if any.
  \<open>settle\<close> picks the rejection that the host makes the earliest; of several at the
  same time, the one of least index.
\<close>

fun started :: "('a \<Rightarrow> error + 'b task) \<Rightarrow> 'a list \<Rightarrow> 'b task list \<times> error option" where
  "started mapper [] = ([], None)"
| "started mapper (x # xs) =
     (case mapper x of
        Inl e \<Rightarrow> ([], Some e)
      | Inr t \<Rightarrow> (case started mapper xs of (ts, thrown) \<Rightarrow> (t # ts, thrown)))"

fun rejections :: "(error + 'b) list \<Rightarrow> error list" where
  "rejections [] = []"
| "rejections (Inl e # rs) = e # rejections rs"
| "rejections (Inr v # rs) = rejections rs"

fun fulfilments :: "(error + 'b) list \<Rightarrow> 'b list" where
  "fulfilments [] = []"
| "fulfilments (Inl e # rs) = fulfilments rs"
| "fulfilments (Inr v # rs) = v # fulfilments rs"

fun earliest :: "(error \<Rightarrow> nat) \<Rightarrow> error \<Rightarrow> error list \<Rightarrow> error" where
  "earliest time e [] = e"
| "earliest time e (e' # es) = earliest time (if time e' < time e then e' else e) es"

definition settle :: "(error \<Rightarrow> nat) \<Rightarrow> (error + 'b) list \<Rightarrow> error + 'b list" where
  "settle time rs =
     (case rejections rs of
        [] \<Rightarrow> Inr (fulfilments rs)
      | e # es \<Rightarrow> Inl (earliest time e es))"

definition bluebirdMap ::
  "host \<Rightarrow> 'a list \<Rightarrow> ('a \<Rightarrow> error + 'b task) \<Rightarrow> 'b list task" where
  "bluebirdMap h xs mapper =
     (case started mapper xs of
        (ts, thrown) \<Rightarrow>
          ((concat (map (\<lambda>t. fst (fst t)) ts),
            foldr both (map (\<lambda>t. snd (fst t)) ts) Nothing),
           case thrown of
             Some e \<Rightarrow> Inl e
           | None \<Rightarrow> settle (rejection_time h) (map snd ts)))"

text \<open>lodash's \<open>zip\<close> of two arrays: the shorter one is padded with \<open>undefined\<close>.\<close>

fun zip_lodash :: "'a list \<Rightarrow> 'b list \<Rightarrow> ('a option \<times> 'b option) list" where
  "zip_lodash [] [] = []"
| "zip_lodash (x # xs) [] = (Some x, None) # zip_lodash xs []"
| "zip_lodash [] (y # ys) = (None, Some y) # zip_lodash [] ys"
| "zip_lodash (x # xs) (y # ys) = (Some x, Some y) # zip_lodash xs ys"

subsection \<open>The class BuildDir\<close>

definition factory :: "host \<Rightarrow> string \<Rightarrow> string \<Rightarrow> BuildDir task" where
  "factory h projectRoot' gardenDirPath =
     (let buildDirPath' = join h gardenDirPath ''build'';
          buildMetadataDirPath' = join h gardenDirPath ''build-metadata''
      in await (ensureDir h buildDirPath') (\<lambda>_.
         await (ensureDir h buildMetadataDirPath') (\<lambda>_.
         resolved \<lparr>projectRoot = projectRoot', buildDirPath = buildDirPath',
                   buildMetadataDirPath = buildMetadataDirPath'\<rparr>)))"

definition buildPath :: "host \<Rightarrow> BuildDir \<Rightarrow> string \<Rightarrow> string task" where
  "buildPath h this moduleName =
     (let path' = resolve h (buildDirPath this) moduleName
      in await (ensureDir h path') (\<lambda>_. resolved path'))"

definition buildMetadataPath :: "host \<Rightarrow> BuildDir \<Rightarrow> string \<Rightarrow> string task" where
  "buildMetadataPath h this moduleName =
     (let path' = resolve h (buildMetadataDirPath this) moduleName
      in await (ensureDir h path') (\<lambda>_. resolved path'))"

definition clear :: "host \<Rightarrow> BuildDir \<Rightarrow> unit task" where
  "clear h this = emptyDir h (buildDirPath this)"

definition endsWith :: "string \<Rightarrow> string \<Rightarrow> bool" where
  "endsWith s t \<longleftrightarrow> length t \<le> length s \<and> drop (length s - length t) s = t"

text \<open>\<open>path.slice(0, -1)\<close> drops the last character.\<close>

definition stripWildcard :: "string \<Rightarrow> string" where
  "stripWildcard p = (if endsWith p ''/*'' then butlast p else p)"

text \<open>The path handed to rsync: translated for Cygwin on win32 only, then without a
  trailing wildcard (lines 119 to 127).\<close>

definition rsyncPath :: "host \<Rightarrow> string \<Rightarrow> string" where
  "rsyncPath h p =
     stripWildcard (if platform h = ''win32'' then toCygwinPath h p else p)"

definition syncOpts :: "BuildDir \<Rightarrow> bool \<Rightarrow> string list" where
  "syncOpts this withDelete =
     [''-rptgo'', ''--exclude='' @ buildDirPath this] @
     (if withDelete then [''--delete''] else [])"

definition logMsg :: "host \<Rightarrow> BuildDir \<Rightarrow> string \<Rightarrow> string \<Rightarrow> bool \<Rightarrow> string" where
  "logMsg h this sourcePath destinationPath withDelete =
     ''Syncing from '' @ relative h (projectRoot this) sourcePath @
     '' to '' @ relative h (projectRoot this) destinationPath @
     (if withDelete then '' (with delete)'' else [])"

definition sync :: "host \<Rightarrow> BuildDir \<Rightarrow> string \<Rightarrow> string \<Rightarrow> bool \<Rightarrow> unit task" where
  "sync h this sourcePath destinationPath withDelete =
     (let destinationDir = parse_dir h destinationPath
      in await (ensureDir h destinationDir) (\<lambda>_.
         let sourcePath' = rsyncPath h sourcePath;
             destinationPath' = rsyncPath h destinationPath
         in logged (logMsg h this sourcePath' destinationPath' withDelete)
              (execa h ''rsync'' (syncOpts this withDelete @ [sourcePath', destinationPath']))))"

definition syncFromSrc :: "host \<Rightarrow> BuildDir \<Rightarrow> Module \<Rightarrow> unit task" where
  "syncFromSrc h this module =
     (let sourcePath = resolve h (projectRoot this) (path module) @ sep h
      in await (buildPath h this (name module)) (\<lambda>destinationPath.
         sync h this sourcePath destinationPath True))"

text \<open>The mapper of the inner \<open>bluebirdMap\<close> (lines 70 to 86). It is not an \<open>async\<close>
  function: its two checks throw, and otherwise it returns the promise of \<open>sync\<close>.\<close>

definition copyMapper ::
  "host \<Rightarrow> BuildDir \<Rightarrow> string \<Rightarrow> string \<Rightarrow> FileCopySpec \<Rightarrow> error + unit task" where
  "copyMapper h this sourceBuildPath buildPath' copy' =
     (if isAbsolute h (source copy') then
        Inl (ConfigurationError
          ''Source path in build dependency copy spec must be a relative path'' copy')
      else if isAbsolute h (target copy') then
        Inl (ConfigurationError
          ''Target path in build dependency copy spec must be a relative path'' copy')
      else
        let sourcePath = join h sourceBuildPath (source copy');
            destinationPath = join h buildPath' (target copy')
        in Inr (sync h this sourcePath destinationPath False))"

text \<open>The mapper of the outer \<open>bluebirdMap\<close> (lines 62 to 87), an \<open>async\<close> function: it
  never throws, it returns a promise.\<close>

definition dependencyMapper ::
  "host \<Rightarrow> BuildDir \<Rightarrow> string \<Rightarrow>
   BuildDependencyConfig option \<times> BuildDependencyConfig option \<Rightarrow> unit task" where
  "dependencyMapper h this buildPath' entry =
     (case entry of
        (Some sourceModule, Some depConfig) \<Rightarrow>
          (case copy depConfig of
             None \<Rightarrow> resolved ()
           | Some copies \<Rightarrow>
               await (buildPath h this
                        (getModuleKey h (dep_name sourceModule) (plugin sourceModule)))
                 (\<lambda>sourceBuildPath.
               await (bluebirdMap h copies (copyMapper h this sourceBuildPath buildPath'))
                 (\<lambda>_. resolved ())))
      | _ \<Rightarrow> resolved ())"

text \<open>Lines 59 and 60 read the same array twice, \<open>module.build.dependencies\<close>; the second
  reading falls back to \<open>[]\<close>. lodash's \<open>zip\<close> ignores an argument that is not an array,
  so that an undefined array leaves nothing to map over.\<close>

definition syncDependencyProducts :: "host \<Rightarrow> BuildDir \<Rightarrow> Module \<Rightarrow> unit task" where
  "syncDependencyProducts h this module =
     await (buildPath h this (name module)) (\<lambda>buildPath'.
       let buildDependencies = dependencies (build module);
           dependencyConfigs = (case dependencies (build module) of None \<Rightarrow> [] | Some ds \<Rightarrow> ds);
           zipped = (case buildDependencies of
                       None \<Rightarrow> []
                     | Some bs \<Rightarrow> zip_lodash bs dependencyConfigs)
       in await (bluebirdMap h zipped (\<lambda>entry. Inr (dependencyMapper h this buildPath' entry)))
            (\<lambda>_. resolved ()))"

subsection \<open>Node's path module on a POSIX host\<close>

text \<open>
  The functions of Node's \<open>path.posix\<close> that the class uses, written on path segments.
  They follow the documented behaviour of Node's implementation: \<open>normalizeString\<close> drops
  empty and \<open>.\<close> segments and lets \<open>..\<close> remove the segment before it; above the root of
  an absolute path \<open>..\<close> is dropped, in a relative path it is kept.
\<close>

fun split_slash :: "string \<Rightarrow> string list" where
  "split_slash [] = [[]]"
| "split_slash (c # cs) =
     (if c = CHR ''/'' then [] # split_slash cs
      else (case split_slash cs of
              [] \<Rightarrow> [[c]]
            | s # ss \<Rightarrow> (c # s) # ss))"

fun join_slash :: "string list \<Rightarrow> string" where
  "join_slash [] = []"
| "join_slash [s] = s"
| "join_slash (s # t # ss) = s @ ''/'' @ join_slash (t # ss)"

definition normalize_step :: "bool \<Rightarrow> string list \<Rightarrow> string \<Rightarrow> string list" where
  "normalize_step allowAboveRoot res seg =
     (if seg = [] \<or> seg = ''.'' then res
      else if seg = ''..'' then
        (if res \<noteq> [] \<and> last res \<noteq> ''..'' then butlast res
         else if allowAboveRoot then res @ [''..'']
         else res)
      else res @ [seg])"

definition normalize_segments :: "bool \<Rightarrow> string \<Rightarrow> string list" where
  "normalize_segments allowAboveRoot p =
     foldl (normalize_step allowAboveRoot) [] (split_slash p)"

definition normalizeString :: "bool \<Rightarrow> string \<Rightarrow> string" where
  "normalizeString allowAboveRoot p = join_slash (normalize_segments allowAboveRoot p)"

definition posix_isAbsolute :: "string \<Rightarrow> bool" where
  "posix_isAbsolute p \<longleftrightarrow> p \<noteq> [] \<and> hd p = CHR ''/''"

definition posix_normalize :: "string \<Rightarrow> string" where
  "posix_normalize p =
     (if p = [] then ''.''
      else
        let isAbs = posix_isAbsolute p;
            trailingSeparator = (last p = CHR ''/'');
            q = normalizeString (\<not> isAbs) p
        in if q = [] then (if isAbs then ''/'' else if trailingSeparator then ''./'' else ''.'')
           else (if isAbs then ''/'' else []) @ q @ (if trailingSeparator then ''/'' else []))"

definition posix_join :: "string \<Rightarrow> string \<Rightarrow> string" where
  "posix_join a b =
     (case filter (\<lambda>arg. arg \<noteq> []) [a, b] of
        [] \<Rightarrow> ''.''
      | args \<Rightarrow> posix_normalize (join_slash args))"

text \<open>\<open>resolve\<close> walks its arguments from the last to the first, and then the working
  directory, until the path collected so far is absolute; empty arguments are skipped.\<close>

fun resolve_collect :: "string list \<Rightarrow> string \<times> bool \<Rightarrow> string \<times> bool" where
  "resolve_collect [] acc = acc"
| "resolve_collect (p # ps) (resolvedPath, resolvedAbsolute) =
     (if resolvedAbsolute then (resolvedPath, resolvedAbsolute)
      else if p = [] then resolve_collect ps (resolvedPath, resolvedAbsolute)
      else resolve_collect ps (p @ ''/'' @ resolvedPath, hd p = CHR ''/''))"

definition resolve_segments :: "string \<Rightarrow> string list \<Rightarrow> bool \<times> string list" where
  "resolve_segments cwd args =
     (case resolve_collect (rev args @ [cwd]) ([], False) of
        (resolvedPath, resolvedAbsolute) \<Rightarrow>
          (resolvedAbsolute, normalize_segments (\<not> resolvedAbsolute) resolvedPath))"

definition posix_resolve_args :: "string \<Rightarrow> string list \<Rightarrow> string" where
  "posix_resolve_args cwd args =
     (case resolve_segments cwd args of
        (resolvedAbsolute, segs) \<Rightarrow>
          if resolvedAbsolute then ''/'' @ join_slash segs
          else if segs \<noteq> [] then join_slash segs
          else ''.'')"

definition posix_resolve :: "string \<Rightarrow> string \<Rightarrow> string \<Rightarrow> string" where
  "posix_resolve cwd a b = posix_resolve_args cwd [a, b]"

text \<open>\<open>parse(p).dir\<close>: trailing separators and the last segment are left out; of an
  absolute path at least the root remains.\<close>

definition posix_parse_dir :: "string \<Rightarrow> string" where
  "posix_parse_dir p =
     (let isAbs = posix_isAbsolute p;
          root = (if isAbs then ''/'' else []);
          body = (if isAbs then tl p else p);
          noBase = dropWhile (\<lambda>c. c \<noteq> CHR ''/'')
                     (dropWhile (\<lambda>c. c = CHR ''/'') (rev body))
      in case noBase of
           [] \<Rightarrow> root
         | _ # kept \<Rightarrow> root @ rev kept)"

fun drop_common :: "string list \<Rightarrow> string list \<Rightarrow> string list \<times> string list" where
  "drop_common (x # xs) (y # ys) =
     (if x = y then drop_common xs ys else (x # xs, y # ys))"
| "drop_common xs ys = (xs, ys)"

text \<open>\<open>relative(from, to)\<close>: one \<open>..\<close> for each segment of \<open>from\<close> below the common
  ancestor, then the segments of \<open>to\<close> below it.\<close>

definition posix_relative :: "string \<Rightarrow> string \<Rightarrow> string \<Rightarrow> string" where
  "posix_relative cwd from to =
     (if from = to then []
      else case drop_common (snd (resolve_segments cwd [from]))
                            (snd (resolve_segments cwd [to])) of
             (up, down) \<Rightarrow> join_slash (map (\<lambda>_. ''..'') up @ down))"

text \<open>A POSIX host with working directory \<open>cwd\<close>. The platform name, the two helpers of
  the repository, the failing operations and the times of rejection stay parameters.\<close>

definition posix_host ::
  "string \<Rightarrow> string \<Rightarrow> (string \<Rightarrow> string) \<Rightarrow> (string \<Rightarrow> string option \<Rightarrow> string) \<Rightarrow>
   (io \<Rightarrow> bool) \<Rightarrow> (error \<Rightarrow> nat) \<Rightarrow> host" where
  "posix_host cwd platform' toCygwinPath' getModuleKey' fails' rejection_time' =
     \<lparr>platform = platform', sep = ''/'', isAbsolute = posix_isAbsolute,
      join = posix_join, parse_dir = posix_parse_dir, resolve = posix_resolve cwd,
      relative = posix_relative cwd, toCygwinPath = toCygwinPath',
      getModuleKey = getModuleKey', fails = fails',
      rejection_time = rejection_time'\<rparr>"

subsection \<open>The file system seen by fs-extra and by rsync\<close>

text \<open>
  A file system is the list of its entries: the segments of an absolute path and what is
  stored there; \<open>stat\<close> looks a path up, and the first entry of a path is the one that
  counts. \<open>fs_key\<close> locates a path the way the operating system does, from the working
  directory. The two operations of \<open>fs-extra\<close> follow its documentation: \<open>ensureDir\<close>
  creates the directory and its missing ancestors; \<open>emptyDir\<close> does the same and deletes
  everything below the directory, not the directory itself. Neither can work when an
  entry on the way to the directory is a file.
\<close>

datatype node = Directory | File string

type_synonym fs = "(string list \<times> node) list"

definition stat :: "fs \<Rightarrow> string list \<Rightarrow> node option" where
  "stat files p = map_of files p"

definition fs_key :: "string \<Rightarrow> string \<Rightarrow> string list" where
  "fs_key cwd p = snd (resolve_segments cwd [p])"

definition is_file :: "node option \<Rightarrow> bool" where
  "is_file n = (case n of Some (File content) \<Rightarrow> True | _ \<Rightarrow> False)"

definition blocked :: "string list \<Rightarrow> fs \<Rightarrow> bool" where
  "blocked d files \<longleftrightarrow> (\<exists>p\<in>set (prefixes d). is_file (stat files p))"

definition missing_dirs :: "string list \<Rightarrow> fs \<Rightarrow> fs" where
  "missing_dirs d files =
     map (\<lambda>p. (p, Directory)) (filter (\<lambda>p. stat files p = None) (prefixes d))"

definition ensureDir_fs :: "string list \<Rightarrow> fs \<Rightarrow> fs" where
  "ensureDir_fs d files = missing_dirs d files @ files"

definition emptyDir_fs :: "string list \<Rightarrow> fs \<Rightarrow> fs" where
  "emptyDir_fs d files =
     missing_dirs d files @ filter (\<lambda>(p, n). \<not> strict_prefix d p) files"

text \<open>
  The external tool, after the manual of rsync, for the calls that \<open>sync\<close> makes with a
  source directory: \<open>rsync -rptgo [--exclude=PATTERN] [--delete] SRC/ DST\<close> with a source
  that ends in a separator, which transfers what the source directory holds, and with
  patterns that have no wildcard. Only the files and their content are modelled, not
  their attributes.

  A pattern with a leading separator is anchored at the root of the transfer: it matches
  the entry whose path below the source (or below the destination) is the pattern. Any
  other pattern matches where its segments end the path. What matches, and everything
  below it, is excluded: it is not transferred, and on the receiving side it is protected
  from deletion. With \<open>--delete\<close>, every entry of the destination that the source does not
  have is deleted, unless it is protected or is a directory that holds a protected entry
  (rsync does not delete a directory that is not empty). The list of what is transferred
  is taken from the source as it is when rsync starts.
\<close>

definition pattern_segments :: "string \<Rightarrow> string list" where
  "pattern_segments pat =
     (if hd pat = CHR ''/'' then tl (split_slash pat) else split_slash pat)"

definition plain_pattern :: "string \<Rightarrow> bool" where
  "plain_pattern pat \<longleftrightarrow>
     pat \<noteq> [] \<and>
     (\<forall>c\<in>set pat. c \<notin> set ''*?[!'' \<and> c \<noteq> CHR 0x5C \<and> c \<noteq> CHR '' '') \<and>
     pattern_segments pat \<noteq> [] \<and>
     (\<forall>s\<in>set (pattern_segments pat). s \<noteq> [] \<and> s \<noteq> ''.'' \<and> s \<noteq> ''..'')"

definition exclude_matches :: "string \<Rightarrow> string list \<Rightarrow> bool" where
  "exclude_matches pat r \<longleftrightarrow>
     (if hd pat = CHR ''/'' then r = pattern_segments pat
      else suffix (pattern_segments pat) r)"

definition excluded :: "string list \<Rightarrow> string list \<Rightarrow> bool" where
  "excluded pats r \<longleftrightarrow>
     (\<exists>pat\<in>set pats. \<exists>k\<in>set [1..<Suc (length r)]. exclude_matches pat (take k r))"

text \<open>An entry of the destination is protected when it, or an entry below it, is
  excluded.\<close>

definition protected :: "string list \<Rightarrow> string list \<Rightarrow> fs \<Rightarrow> string list \<Rightarrow> bool" where
  "protected pats dst files p \<longleftrightarrow>
     (\<exists>(q, n)\<in>set files.
        prefix p q \<and> strict_prefix dst q \<and> excluded pats (drop (length dst) q))"

definition transferred :: "string list \<Rightarrow> string list \<Rightarrow> string list \<Rightarrow> fs \<Rightarrow> fs" where
  "transferred pats src dst files =
     map (\<lambda>(p, n). (dst @ drop (length src) p, n))
       (filter (\<lambda>(p, n). strict_prefix src p \<and> \<not> excluded pats (drop (length src) p))
          files)"

definition rsync_contents ::
  "string list \<Rightarrow> bool \<Rightarrow> string list \<Rightarrow> string list \<Rightarrow> fs \<Rightarrow> fs" where
  "rsync_contents pats delete src dst files =
     (dst, Directory) # transferred pats src dst files @
     filter (\<lambda>(p, n). strict_prefix dst p \<longrightarrow> \<not> delete \<or> protected pats dst files p) files"

text \<open>A file that would have to replace a directory, or a directory a file.\<close>

definition same_kind :: "node \<Rightarrow> node \<Rightarrow> bool" where
  "same_kind a b \<longleftrightarrow> (a = Directory \<longleftrightarrow> b = Directory)"

definition conflicts :: "string list \<Rightarrow> string list \<Rightarrow> string list \<Rightarrow> fs \<Rightarrow> bool" where
  "conflicts pats src dst files \<longleftrightarrow>
     (\<exists>(p, n)\<in>set (transferred pats src dst files).
        case stat files p of None \<Rightarrow> False | Some n' \<Rightarrow> \<not> same_kind n n')"

text \<open>\<open>None\<close>: the call is not one of those described above, a file would have to
  replace a directory or a directory a file, or rsync fails at once because the source is
  not a directory or the destination is a file.\<close>

definition rsync :: "string \<Rightarrow> string list \<Rightarrow> fs \<Rightarrow> fs option" where
  "rsync cwd args files =
     (case rev args of
        dst # src # options \<Rightarrow>
          (let pats = map (drop 10) (filter (\<lambda>opt. take 10 opt = ''--exclude='') options)
           in if ''-rptgo'' \<in> set options \<and>
                 (\<forall>opt\<in>set options. opt = ''-rptgo'' \<or> opt = ''--delete'' \<or>
                    take 10 opt = ''--exclude='') \<and>
                 (\<forall>pat\<in>set pats. plain_pattern pat) \<and>
                 src \<noteq> [] \<and> hd src \<noteq> CHR ''-'' \<and> last src = CHR ''/'' \<and>
                 dst \<noteq> [] \<and> hd dst \<noteq> CHR ''-'' \<and>
                 stat files (fs_key cwd src) = Some Directory \<and>
                 \<not> is_file (stat files (fs_key cwd dst)) \<and>
                 \<not> conflicts pats (fs_key cwd src) (fs_key cwd dst) files
              then Some (rsync_contents pats (''--delete'' \<in> set options)
                           (fs_key cwd src) (fs_key cwd dst) files)
              else None)
      | _ \<Rightarrow> None)"

text \<open>What an operation that succeeds does to the files. \<open>None\<close>: the model does not say,
  or the operation cannot succeed.\<close>

definition fs_apply :: "string \<Rightarrow> fs \<Rightarrow> io \<Rightarrow> fs option" where
  "fs_apply cwd files op =
     (case op of
        EnsureDir p \<Rightarrow>
          if blocked (fs_key cwd p) files then None
          else Some (ensureDir_fs (fs_key cwd p) files)
      | EmptyDir p \<Rightarrow>
          if blocked (fs_key cwd p) files then None
          else Some (emptyDir_fs (fs_key cwd p) files)
      | Debug msg \<Rightarrow> Some files
      | Execa cmd args \<Rightarrow> if cmd = ''rsync'' then rsync cwd args files else None)"

text \<open>The files after a list of operations that succeed one after the other.\<close>

fun fs_run :: "string \<Rightarrow> io list \<Rightarrow> fs \<Rightarrow> fs option" where
  "fs_run cwd [] files = Some files"
| "fs_run cwd (op # ops) files =
     (case fs_apply cwd files op of
        None \<Rightarrow> None
      | Some files' \<Rightarrow> fs_run cwd ops files')"

text \<open>What is found at a path after the operations: \<open>None\<close> when the model does not
  give the files after them, \<open>Some None\<close> when nothing is there.\<close>

definition stat_after :: "string \<Rightarrow> io list \<Rightarrow> fs \<Rightarrow> string list \<Rightarrow> node option option" where
  "stat_after cwd ops files p =
     (case fs_run cwd ops files of None \<Rightarrow> None | Some files' \<Rightarrow> Some (stat files' p))"

subsection \<open>Names that are one path segment\<close>

text \<open>A name that \<open>resolve\<close> takes as one directory entry: not empty, without a
  separator, and neither \<open>.\<close> nor \<open>..\<close>.\<close>

definition single_segment :: "string \<Rightarrow> bool" where
  "single_segment n \<longleftrightarrow> n \<noteq> [] \<and> CHR ''/'' \<notin> set n \<and> n \<noteq> ''.'' \<and> n \<noteq> ''..''"

subsection \<open>Example inputs\<close>

text \<open>A Linux host with working directory \<open>/home/dev\<close>. Its module key is the name,
  prefixed by the plugin's name and \<open>--\<close> when the dependency names a plugin;
  \<open>toCygwinPath\<close> is never called on this platform. All rejections come at the same
  time, unless said otherwise.\<close>

definition example_getModuleKey :: "string \<Rightarrow> string option \<Rightarrow> string" where
  "example_getModuleKey n p = (case p of None \<Rightarrow> n | Some q \<Rightarrow> q @ ''--'' @ n)"

definition at_once :: "error \<Rightarrow> nat" where
  "at_once e = 0"

definition example_host :: "(io \<Rightarrow> bool) \<Rightarrow> host" where
  "example_host fails' =
     posix_host ''/home/dev'' ''linux'' (\<lambda>p. p) example_getModuleKey fails' at_once"

definition never :: "io \<Rightarrow> bool" where
  "never op = False"

definition rsync_fails :: "io \<Rightarrow> bool" where
  "rsync_fails op = (case op of Execa cmd args \<Rightarrow> cmd = ''rsync'' | _ \<Rightarrow> False)"

text \<open>A host on which exactly one operation fails.\<close>

definition only_fails :: "io \<Rightarrow> io \<Rightarrow> bool" where
  "only_fails op0 op \<longleftrightarrow> op = op0"

definition example_buildDir :: BuildDir where
  "example_buildDir =
     \<lparr>projectRoot = ''/proj'', buildDirPath = ''/proj/.garden/build'',
      buildMetadataDirPath = ''/proj/.garden/build-metadata''\<rparr>"

text \<open>A module with two build dependencies: one with two copy specs, one without a
  copy list.\<close>

definition example_module :: Module where
  "example_module =
     \<lparr>name = ''web'', path = ''services/web'',
      build = \<lparr>dependencies = Some
        [\<lparr>dep_name = ''lib'', plugin = None,
          copy = Some [\<lparr>source = ''dist'', target = ''vendor/lib''\<rparr>,
                       \<lparr>source = ''README.md'', target = ''docs''\<rparr>]\<rparr>,
         \<lparr>dep_name = ''base'', plugin = None, copy = None\<rparr>]\<rparr>\<rparr>"

text \<open>A module whose only copy spec has the absolute target \<open>/etc/foo\<close>.\<close>

definition absolute_target_module :: Module where
  "absolute_target_module =
     \<lparr>name = ''web'', path = ''services/web'',
      build = \<lparr>dependencies = Some
        [\<lparr>dep_name = ''lib'', plugin = None,
          copy = Some [\<lparr>source = ''dist'', target = ''/etc/foo''\<rparr>]\<rparr>]\<rparr>\<rparr>"

text \<open>A module whose dependency has a relative copy spec followed by one with the
  absolute target \<open>/etc/foo\<close>.\<close>

definition mixed_module :: Module where
  "mixed_module =
     \<lparr>name = ''web'', path = ''services/web'',
      build = \<lparr>dependencies = Some
        [\<lparr>dep_name = ''lib'', plugin = None,
          copy = Some [\<lparr>source = ''dist'', target = ''vendor/lib''\<rparr>,
                       \<lparr>source = ''dist'', target = ''/etc/foo''\<rparr>]\<rparr>]\<rparr>\<rparr>"

text \<open>A module whose sources are the project directory itself.\<close>

definition root_module :: Module where
  "root_module =
     \<lparr>name = ''root'', path = ''.'', build = \<lparr>dependencies = None\<rparr>\<rparr>"

text \<open>
  The files of the example project: the sources of \<open>web\<close> and a file of the project
  directory; in the build directory of \<open>web\<close> a file that the sources no longer have and
  a file at the place that the exclude pattern names; the build directory of \<open>lib\<close>; the
  recorded version of \<open>web\<close>.
\<close>

definition example_tree :: fs where
  "example_tree =
     [([], Directory),
      ([''proj''], Directory),
      ([''proj'', ''main.js''], File ''root''),
      ([''proj'', ''services''], Directory),
      ([''proj'', ''services'', ''web''], Directory),
      ([''proj'', ''services'', ''web'', ''main.js''], File ''js''),
      ([''proj'', ''.garden''], Directory),
      ([''proj'', ''.garden'', ''build''], Directory),
      ([''proj'', ''.garden'', ''build'', ''web''], Directory),
      ([''proj'', ''.garden'', ''build'', ''web'', ''stale.txt''], File ''old''),
      ([''proj'', ''.garden'', ''build'', ''web'', ''proj''], Directory),
      ([''proj'', ''.garden'', ''build'', ''web'', ''proj'', ''.garden''], Directory),
      ([''proj'', ''.garden'', ''build'', ''web'', ''proj'', ''.garden'', ''build''],
         Directory),
      ([''proj'', ''.garden'', ''build'', ''web'', ''proj'', ''.garden'', ''build'',
        ''kept.txt''], File ''kept''),
      ([''proj'', ''.garden'', ''build'', ''lib''], Directory),
      ([''proj'', ''.garden'', ''build'', ''lib'', ''dist.js''], File ''lib''),
      ([''proj'', ''.garden'', ''build-metadata''], Directory),
      ([''proj'', ''.garden'', ''build-metadata'', ''web''], Directory),
      ([''proj'', ''.garden'', ''build-metadata'', ''web'', ''version''], File ''v-1'')]"

subsection \<open>Order of operations\<close>

text \<open>
  A list of operations in which every started process is an rsync call of \<open>sync\<close> whose
  destination's parent directory was created, with success, earlier in the list or among
  the operations \<open>done\<close> before the list.
\<close>

definition ensured_before_rsync :: "host \<Rightarrow> BuildDir \<Rightarrow> io set \<Rightarrow> io list \<Rightarrow> bool" where
  "ensured_before_rsync h this done ops \<longleftrightarrow>
     (\<forall>before cmd args after. ops = before @ Execa cmd args # after \<longrightarrow>
        (\<exists>sourcePath destinationPath withDelete.
           cmd = ''rsync'' \<and>
           args = syncOpts this withDelete @
                    [rsyncPath h sourcePath, rsyncPath h destinationPath] \<and>
           \<not> fails h (EnsureDir (parse_dir h destinationPath)) \<and>
           EnsureDir (parse_dir h destinationPath) \<in> done \<union> set before))"


section \<open>Properties\<close>


subsection \<open>Operations issued and settlement of the basic calls\<close>

lemma issued_later_turn: "issued_later (turn ops) = ops"
  by (simp add: turn_def)

lemma issued_later_then_later:
  "issued_later (then_later a b) = issued_later a @ issued_later b"
  by (simp add: then_later_def)

lemma issued_later_both: "issued_later (both a b) = issued_later a @ issued_later b"
  by (simp add: both_def)

lemma issued_await:
  "issued (await m k) = issued m @ (case snd m of Inl e \<Rightarrow> [] | Inr v \<Rightarrow> issued (k v))"
  by (cases m)
    (auto simp: await_def issued_def issued_later_then_later issued_later_turn
      split: sum.splits prod.splits)

lemma snd_await:
  "snd (await m k) = (case snd m of Inl e \<Rightarrow> Inl e | Inr v \<Rightarrow> snd (k v))"
  by (cases m) (auto simp: await_def split: sum.splits prod.splits)

lemma issued_resolved: "issued (resolved v) = []"
  by (simp add: resolved_def issued_def)

lemma issued_perform: "issued (perform h op) = [op]"
  by (simp add: perform_def issued_def)

lemma issued_logged: "issued (logged msg t) = Debug msg # issued t"
  by (simp add: logged_def issued_def split: prod.splits)

lemma snd_logged: "snd (logged msg t) = snd t"
  by (simp add: logged_def split: prod.splits)

lemma issued_ensureDir: "issued (ensureDir h p) = [EnsureDir p]"
  by (simp add: ensureDir_def issued_perform)

lemma snd_ensureDir:
  "snd (ensureDir h p) =
     (if fails h (EnsureDir p) then Inl (OperationFailed (EnsureDir p)) else Inr ())"
  by (simp add: ensureDir_def perform_def)

lemma issued_buildPath:
  "issued (buildPath h this n) = [EnsureDir (resolve h (buildDirPath this) n)]"
  by (simp add: buildPath_def Let_def issued_await issued_ensureDir snd_ensureDir
      issued_resolved)

lemma snd_buildPath:
  "snd (buildPath h this n) =
     (if fails h (EnsureDir (resolve h (buildDirPath this) n))
      then Inl (OperationFailed (EnsureDir (resolve h (buildDirPath this) n)))
      else Inr (resolve h (buildDirPath this) n))"
  by (simp add: buildPath_def Let_def snd_await snd_ensureDir resolved_def)

lemma issued_sync:
  "issued (sync h this s d wd) =
     EnsureDir (parse_dir h d) #
     (if fails h (EnsureDir (parse_dir h d)) then []
      else [Debug (logMsg h this (rsyncPath h s) (rsyncPath h d) wd),
            Execa ''rsync'' (syncOpts this wd @ [rsyncPath h s, rsyncPath h d])])"
  by (simp add: sync_def Let_def issued_await issued_ensureDir snd_ensureDir issued_logged
      execa_def issued_perform)

lemma snd_sync:
  "snd (sync h this s d wd) =
     (if fails h (EnsureDir (parse_dir h d)) then Inl (OperationFailed (EnsureDir (parse_dir h d)))
      else if fails h (Execa ''rsync'' (syncOpts this wd @ [rsyncPath h s, rsyncPath h d]))
      then Inl (OperationFailed (Execa ''rsync'' (syncOpts this wd @ [rsyncPath h s, rsyncPath h d])))
      else Inr ())"
  by (simp add: sync_def Let_def snd_await snd_ensureDir snd_logged execa_def perform_def)

lemma started_tasks:
  "started f xs = (ts, thrown) \<Longrightarrow> t \<in> set ts \<Longrightarrow> \<exists>x\<in>set xs. f x = Inr t"
  by (induction xs arbitrary: ts) (auto split: sum.splits prod.splits)

lemma started_thrown:
  "started f xs = (ts, Some e) \<Longrightarrow> \<exists>x\<in>set xs. f x = Inl e"
  by (induction xs arbitrary: ts) (auto split: sum.splits prod.splits)

lemma started_all:
  "started f xs = (ts, None) \<Longrightarrow> x \<in> set xs \<Longrightarrow> \<exists>t\<in>set ts. f x = Inr t"
  by (induction xs arbitrary: ts) (auto split: sum.splits prod.splits)

lemma issued_later_foldr_both:
  "issued_later (foldr both ls Nothing) = concat (map issued_later ls)"
  by (induction ls) (simp_all add: issued_later_both)

text \<open>The operations of \<open>bluebirdMap\<close> are those of the mapper calls that returned a
  promise.\<close>

lemma set_issued_bluebirdMap:
  "set (issued (bluebirdMap h xs f)) = (\<Union>t\<in>set (fst (started f xs)). set (issued t))"
  by (cases "started f xs")
    (auto simp: bluebirdMap_def issued_def issued_later_foldr_both split: prod.splits)

lemma issued_bluebirdMap_Nil: "issued (bluebirdMap h [] f) = []"
  by (simp add: bluebirdMap_def issued_def)

lemma bluebirdMap_op_origin:
  assumes "op \<in> set (issued (bluebirdMap h xs f))"
  shows "\<exists>x\<in>set xs. \<exists>t. f x = Inr t \<and> op \<in> set (issued t)"
proof -
  obtain ts thrown where st: "started f xs = (ts, thrown)" by (cases "started f xs")
  with assms obtain t where "t \<in> set ts" "op \<in> set (issued t)"
    by (auto simp: set_issued_bluebirdMap)
  with started_tasks [OF st] show ?thesis by blast
qed

lemma zip_lodash_same: "zip_lodash xs xs = map (\<lambda>x. (Some x, Some x)) xs"
  by (induction xs) simp_all

lemma issued_dependencyMapper:
  "issued (dependencyMapper h this bp (Some sm, Some dc)) =
     (case copy dc of
        None \<Rightarrow> []
      | Some cs \<Rightarrow>
          EnsureDir (resolve h (buildDirPath this) (getModuleKey h (dep_name sm) (plugin sm))) #
          (if fails h (EnsureDir (resolve h (buildDirPath this)
                 (getModuleKey h (dep_name sm) (plugin sm)))) then []
           else issued (bluebirdMap h cs (copyMapper h this
                 (resolve h (buildDirPath this) (getModuleKey h (dep_name sm) (plugin sm))) bp))))"
  by (simp add: dependencyMapper_def issued_await issued_buildPath snd_buildPath issued_resolved
      split: option.splits sum.splits)

lemma issued_syncDependencyProducts:
  "issued (syncDependencyProducts h this m) =
     EnsureDir (resolve h (buildDirPath this) (name m)) #
     (if fails h (EnsureDir (resolve h (buildDirPath this) (name m))) then []
      else issued (bluebirdMap h
             (case dependencies (build m) of None \<Rightarrow> [] | Some ds \<Rightarrow> zip_lodash ds ds)
             (\<lambda>entry. Inr (dependencyMapper h this
                 (resolve h (buildDirPath this) (name m)) entry))))"
  by (simp add: syncDependencyProducts_def Let_def issued_await issued_buildPath snd_buildPath
      issued_resolved split: option.splits sum.splits)

text \<open>Where an operation of \<open>syncDependencyProducts\<close> comes from.\<close>

lemma syncDependencyProducts_op_origin:
  assumes "op \<in> set (issued (syncDependencyProducts h this m))"
  shows "op = EnsureDir (resolve h (buildDirPath this) (name m)) \<or>
     (\<exists>ds d cs. dependencies (build m) = Some ds \<and> d \<in> set ds \<and> copy d = Some cs \<and>
        (op = EnsureDir (resolve h (buildDirPath this) (getModuleKey h (dep_name d) (plugin d))) \<or>
         (\<exists>c\<in>set cs. \<not> isAbsolute h (source c) \<and> \<not> isAbsolute h (target c) \<and>
            op \<in> set (issued (sync h this
              (join h (resolve h (buildDirPath this) (getModuleKey h (dep_name d) (plugin d)))
                 (source c))
              (join h (resolve h (buildDirPath this) (name m)) (target c)) False)))))"
proof (cases "op = EnsureDir (resolve h (buildDirPath this) (name m))")
  case True
  then show ?thesis by simp
next
  case False
  let ?bp = "resolve h (buildDirPath this) (name m)"
  from assms False obtain ds where ds: "dependencies (build m) = Some ds"
    and mem: "op \<in> set (issued (bluebirdMap h (zip_lodash ds ds)
                 (\<lambda>entry. Inr (dependencyMapper h this ?bp entry))))"
    by (auto simp: issued_syncDependencyProducts issued_bluebirdMap_Nil
        split: if_splits option.splits)
  from bluebirdMap_op_origin [OF mem] obtain d where d: "d \<in> set ds"
    and opd: "op \<in> set (issued (dependencyMapper h this ?bp (Some d, Some d)))"
    by (auto simp: zip_lodash_same)
  let ?sbp = "resolve h (buildDirPath this) (getModuleKey h (dep_name d) (plugin d))"
  from opd obtain cs where cs: "copy d = Some cs"
    by (cases "copy d") (auto simp: issued_dependencyMapper)
  with opd have opc:
    "op = EnsureDir ?sbp \<or> op \<in> set (issued (bluebirdMap h cs (copyMapper h this ?sbp ?bp)))"
    by (auto simp: issued_dependencyMapper split: if_splits)
  show ?thesis
  proof (cases "op = EnsureDir ?sbp")
    case True
    with ds d cs show ?thesis by blast
  next
    case False
    with opc have "op \<in> set (issued (bluebirdMap h cs (copyMapper h this ?sbp ?bp)))" by simp
    from bluebirdMap_op_origin [OF this] obtain c t where c: "c \<in> set cs"
      and t: "copyMapper h this ?sbp ?bp c = Inr t" and opt: "op \<in> set (issued t)"
      by blast
    from t have rel: "\<not> isAbsolute h (source c)" "\<not> isAbsolute h (target c)"
      and teq: "t = sync h this (join h ?sbp (source c)) (join h ?bp (target c)) False"
      by (auto simp: copyMapper_def Let_def split: if_splits)
    with ds d cs c opt show ?thesis by blast
  qed
qed

lemma sync_Execa:
  "Execa cmd args \<in> set (issued (sync h this s d wd)) \<Longrightarrow>
     cmd = ''rsync'' \<and> args = syncOpts this wd @ [rsyncPath h s, rsyncPath h d]"
  by (auto simp: issued_sync split: if_splits)

lemma issued_syncFromSrc:
  "issued (syncFromSrc h this m) =
     EnsureDir (resolve h (buildDirPath this) (name m)) #
     (if fails h (EnsureDir (resolve h (buildDirPath this) (name m))) then []
      else issued (sync h this (resolve h (projectRoot this) (path m) @ sep h)
                  (resolve h (buildDirPath this) (name m)) True))"
  by (simp add: syncFromSrc_def Let_def issued_await issued_buildPath snd_buildPath)

lemma snd_syncFromSrc:
  "snd (syncFromSrc h this m) =
     (if fails h (EnsureDir (resolve h (buildDirPath this) (name m)))
      then Inl (OperationFailed (EnsureDir (resolve h (buildDirPath this) (name m))))
      else snd (sync h this (resolve h (projectRoot this) (path m) @ sep h)
                  (resolve h (buildDirPath this) (name m)) True))"
  by (simp add: syncFromSrc_def Let_def snd_await snd_buildPath)


subsection \<open>The examples, evaluated\<close>


text \<open>The two copies of the dependency \<open>lib\<close>: \<open>ensureDir\<close> is called for both in the same
  turn; the two rsync calls come later, in either order.\<close>

lemma example_syncDependencyProducts:
  "syncDependencyProducts (example_host never) example_buildDir example_module =
     (([EnsureDir ''/proj/.garden/build/web''],
       Then (Turn [EnsureDir ''/proj/.garden/build/lib''])
         (Then (Turn [EnsureDir ''/proj/.garden/build/web/vendor'',
                      EnsureDir ''/proj/.garden/build/web''])
            (Both
               (Turn [Debug
                  ''Syncing from .garden/build/lib/dist to .garden/build/web/vendor/lib'',
                  Execa ''rsync''
                    [''-rptgo'', ''--exclude=/proj/.garden/build'',
                     ''/proj/.garden/build/lib/dist'', ''/proj/.garden/build/web/vendor/lib'']])
               (Turn [Debug
                  ''Syncing from .garden/build/lib/README.md to .garden/build/web/docs'',
                  Execa ''rsync''
                    [''-rptgo'', ''--exclude=/proj/.garden/build'',
                     ''/proj/.garden/build/lib/README.md'',
                     ''/proj/.garden/build/web/docs'']])))),
      Inr ())"
  by code_simp

lemma never_fails: "\<not> fails (example_host never) op"
  by (simp add: example_host_def posix_host_def never_def)

lemma example_absolute_target:
  "syncDependencyProducts (example_host never) example_buildDir absolute_target_module =
     (([EnsureDir ''/proj/.garden/build/web''], Turn [EnsureDir ''/proj/.garden/build/lib'']),
      Inl (ConfigurationError
        ''Target path in build dependency copy spec must be a relative path''
        \<lparr>source = ''dist'', target = ''/etc/foo''\<rparr>))"
  by code_simp

lemma example_mixed:
  "syncDependencyProducts (example_host never) example_buildDir mixed_module =
     (([EnsureDir ''/proj/.garden/build/web''],
       Then (Turn [EnsureDir ''/proj/.garden/build/lib''])
         (Then (Turn [EnsureDir ''/proj/.garden/build/web/vendor''])
            (Turn [Debug
               ''Syncing from .garden/build/lib/dist to .garden/build/web/vendor/lib'',
               Execa ''rsync''
                 [''-rptgo'', ''--exclude=/proj/.garden/build'',
                  ''/proj/.garden/build/lib/dist'', ''/proj/.garden/build/web/vendor/lib'']]))),
      Inl (ConfigurationError
        ''Target path in build dependency copy spec must be a relative path''
        \<lparr>source = ''dist'', target = ''/etc/foo''\<rparr>))"
  by code_simp

text \<open>The same call when every rsync fails: the rsync of the first copy is started and
  fails, the promise is rejected with the \<open>ConfigurationError\<close> thrown for the second.\<close>

lemma example_mixed_rsync_fails:
  "syncDependencyProducts (example_host rsync_fails) example_buildDir mixed_module =
     (([EnsureDir ''/proj/.garden/build/web''],
       Then (Turn [EnsureDir ''/proj/.garden/build/lib''])
         (Then (Turn [EnsureDir ''/proj/.garden/build/web/vendor''])
            (Turn [Debug
               ''Syncing from .garden/build/lib/dist to .garden/build/web/vendor/lib'',
               Execa ''rsync''
                 [''-rptgo'', ''--exclude=/proj/.garden/build'',
                  ''/proj/.garden/build/lib/dist'', ''/proj/.garden/build/web/vendor/lib'']]))),
      Inl (ConfigurationError
        ''Target path in build dependency copy spec must be a relative path''
        \<lparr>source = ''dist'', target = ''/etc/foo''\<rparr>))"
  by code_simp


subsection \<open>Settlement of \<open>bluebirdMap\<close> and of \<open>syncDependencyProducts\<close>\<close>

lemma rejections_iff: "e \<in> set (rejections rs) \<longleftrightarrow> Inl e \<in> set rs"
  by (induction rs rule: rejections.induct) auto

lemma earliest_member: "earliest time e es \<in> set (e # es)"
  by (induction es arbitrary: e) (auto split: if_splits)

lemma settle_Inl: "settle time rs = Inl e \<Longrightarrow> Inl e \<in> set rs"
proof -
  assume a: "settle time rs = Inl e"
  then obtain e0 es where r: "rejections rs = e0 # es" and e: "e = earliest time e0 es"
    by (cases "rejections rs") (auto simp: settle_def)
  from earliest_member [of time e0 es] r e have "e \<in> set (rejections rs)" by simp
  then show ?thesis by (simp add: rejections_iff)
qed

lemma settle_Inr: "settle time rs = Inr vs \<Longrightarrow> Inl e \<notin> set rs"
proof -
  assume "settle time rs = Inr vs"
  then have "rejections rs = []" by (cases "rejections rs") (auto simp: settle_def)
  then have "e \<notin> set (rejections rs)" by simp
  then show ?thesis by (simp add: rejections_iff)
qed

text \<open>A rejection of \<open>bluebirdMap\<close> is a throw of the mapper or the rejection of a promise
  it returned; a fulfilment means that no mapper call threw and no promise rejected.\<close>

lemma bluebirdMap_Inl:
  assumes "snd (bluebirdMap h xs f) = Inl e"
  shows "\<exists>x\<in>set xs. f x = Inl e \<or>
           (\<exists>t. f x = Inr t \<and> snd t = Inl e \<and> set (issued t) \<subseteq> set (issued (bluebirdMap h xs f)))"
proof (cases "started f xs")
  case (Pair ts thrown)
  show ?thesis
  proof (cases thrown)
    case None
    with Pair assms have "settle (rejection_time h) (map snd ts) = Inl e" by (simp add: bluebirdMap_def)
    then obtain t where t: "t \<in> set ts" "snd t = Inl e" by (auto dest!: settle_Inl)
    with Pair have "set (issued t) \<subseteq> set (issued (bluebirdMap h xs f))"
      by (auto simp: set_issued_bluebirdMap)
    with t started_tasks [OF Pair] show ?thesis by blast
  next
    case (Some e')
    with Pair assms have "e' = e" by (simp add: bluebirdMap_def)
    with Pair Some started_thrown [of f xs ts e] show ?thesis by blast
  qed
qed

lemma bluebirdMap_Inr:
  assumes "snd (bluebirdMap h xs f) = Inr vs" and "x \<in> set xs"
  shows "\<exists>t v. f x = Inr t \<and> snd t = Inr v"
proof (cases "started f xs")
  case (Pair ts thrown)
  with assms(1) have th: "thrown = None" and st: "settle (rejection_time h) (map snd ts) = Inr vs"
    by (auto simp: bluebirdMap_def split: option.splits)
  from started_all [OF Pair [unfolded th] assms(2)] obtain t where t: "t \<in> set ts" "f x = Inr t"
    by blast
  from settle_Inr [OF st] t(1) have "\<And>e. snd t \<noteq> Inl e" by force
  then obtain v where "snd t = Inr v" by (cases "snd t") auto
  with t show ?thesis by blast
qed

lemma snd_dependencyMapper:
  "snd (dependencyMapper h this bp (Some sm, Some dc)) =
     (case copy dc of
        None \<Rightarrow> Inr ()
      | Some cs \<Rightarrow>
          if fails h (EnsureDir (resolve h (buildDirPath this)
                 (getModuleKey h (dep_name sm) (plugin sm))))
          then Inl (OperationFailed (EnsureDir (resolve h (buildDirPath this)
                 (getModuleKey h (dep_name sm) (plugin sm)))))
          else (case snd (bluebirdMap h cs (copyMapper h this
                 (resolve h (buildDirPath this) (getModuleKey h (dep_name sm) (plugin sm))) bp))
                of Inl e \<Rightarrow> Inl e | Inr vs \<Rightarrow> Inr ()))"
  by (simp add: dependencyMapper_def snd_await snd_buildPath resolved_def
      split: option.splits sum.splits)

lemma snd_syncDependencyProducts:
  "snd (syncDependencyProducts h this m) =
     (if fails h (EnsureDir (resolve h (buildDirPath this) (name m)))
      then Inl (OperationFailed (EnsureDir (resolve h (buildDirPath this) (name m))))
      else (case snd (bluebirdMap h
             (case dependencies (build m) of None \<Rightarrow> [] | Some ds \<Rightarrow> zip_lodash ds ds)
             (\<lambda>entry. Inr (dependencyMapper h this
                 (resolve h (buildDirPath this) (name m)) entry)))
            of Inl e \<Rightarrow> Inl e | Inr vs \<Rightarrow> Inr ()))"
  by (simp add: syncDependencyProducts_def Let_def snd_await snd_buildPath
      resolved_def split: option.splits sum.splits)

text \<open>When \<open>syncDependencyProducts\<close> fulfils, every copy spec of every dependency passed
  both checks and its sync fulfilled.\<close>

lemma syncDependencyProducts_fulfilled:
  assumes ok: "snd (syncDependencyProducts h this m) = Inr u"
    and ds: "dependencies (build m) = Some ds" and d: "d \<in> set ds"
    and cs: "copy d = Some cs" and c: "c \<in> set cs"
  shows "\<not> isAbsolute h (source c) \<and> \<not> isAbsolute h (target c) \<and>
     snd (sync h this
       (join h (resolve h (buildDirPath this) (getModuleKey h (dep_name d) (plugin d)))
          (source c))
       (join h (resolve h (buildDirPath this) (name m)) (target c)) False) = Inr ()"
proof -
  let ?bp = "resolve h (buildDirPath this) (name m)"
  let ?sbp = "resolve h (buildDirPath this) (getModuleKey h (dep_name d) (plugin d))"
  from ok ds obtain vs where outer: "snd (bluebirdMap h (zip_lodash ds ds)
       (\<lambda>entry. Inr (dependencyMapper h this ?bp entry))) = Inr vs"
    by (auto simp: snd_syncDependencyProducts split: if_splits sum.splits)
  from d have "(Some d, Some d) \<in> set (zip_lodash ds ds)" by (auto simp: zip_lodash_same)
  from bluebirdMap_Inr [OF outer this] obtain v
    where "snd (dependencyMapper h this ?bp (Some d, Some d)) = Inr v" by auto
  with cs obtain ws where inner: "snd (bluebirdMap h cs (copyMapper h this ?sbp ?bp)) = Inr ws"
    by (auto simp: snd_dependencyMapper split: if_splits sum.splits)
  from bluebirdMap_Inr [OF inner c] obtain t w
    where t: "copyMapper h this ?sbp ?bp c = Inr t" "snd t = Inr w" by blast
  then show ?thesis by (auto simp: copyMapper_def Let_def split: if_splits)
qed

text \<open>Where a rejection of \<open>syncDependencyProducts\<close> comes from: an external operation
  that it issued and that failed, or the check of an absolute path in a copy spec.\<close>

lemma syncDependencyProducts_rejected:
  assumes rej: "snd (syncDependencyProducts h this m) = Inl e"
  shows "(\<exists>op. e = OperationFailed op \<and> fails h op \<and>
            op \<in> set (issued (syncDependencyProducts h this m))) \<or>
         (\<exists>msg ds d cs c. e = ConfigurationError msg c \<and>
            dependencies (build m) = Some ds \<and> d \<in> set ds \<and> copy d = Some cs \<and>
            c \<in> set cs \<and> (isAbsolute h (source c) \<or> isAbsolute h (target c)))"
proof (cases "fails h (EnsureDir (resolve h (buildDirPath this) (name m)))")
  case True
  with rej show ?thesis
    by (auto simp: snd_syncDependencyProducts issued_syncDependencyProducts)
next
  case nf: False
  let ?bp = "resolve h (buildDirPath this) (name m)"
  let ?zipped = "case dependencies (build m) of None \<Rightarrow> [] | Some ds \<Rightarrow> zip_lodash ds ds"
  let ?outer = "bluebirdMap h ?zipped (\<lambda>entry. Inr (dependencyMapper h this ?bp entry))"
  from rej nf have outer: "snd ?outer = Inl e"
    by (auto simp: snd_syncDependencyProducts split: sum.splits)
  have sub: "set (issued ?outer) \<subseteq> set (issued (syncDependencyProducts h this m))"
    using nf by (auto simp: issued_syncDependencyProducts)
  from bluebirdMap_Inl [OF outer] obtain entry where entry: "entry \<in> set ?zipped"
    and dm: "snd (dependencyMapper h this ?bp entry) = Inl e"
    and dmo: "set (issued (dependencyMapper h this ?bp entry)) \<subseteq> set (issued ?outer)" by auto
  from entry obtain ds where ds: "dependencies (build m) = Some ds"
    by (cases "dependencies (build m)") auto
  with entry obtain d where d: "d \<in> set ds" and en: "entry = (Some d, Some d)"
    by (auto simp: zip_lodash_same)
  let ?sbp = "resolve h (buildDirPath this) (getModuleKey h (dep_name d) (plugin d))"
  from dm en obtain cs where cs: "copy d = Some cs"
    by (cases "copy d") (auto simp: snd_dependencyMapper)
  let ?inner = "bluebirdMap h cs (copyMapper h this ?sbp ?bp)"
  from dmo en sub have dsub:
    "set (issued (dependencyMapper h this ?bp (Some d, Some d))) \<subseteq>
     set (issued (syncDependencyProducts h this m))" by auto
  show ?thesis
  proof (cases "fails h (EnsureDir ?sbp)")
    case True
    with dm en cs have "e = OperationFailed (EnsureDir ?sbp)"
      by (simp add: snd_dependencyMapper)
    moreover from cs have "EnsureDir ?sbp \<in> set (issued (dependencyMapper h this ?bp (Some d, Some d)))"
      by (simp add: issued_dependencyMapper)
    ultimately show ?thesis using True dsub by blast
  next
    case False
    with dm en cs have inner: "snd ?inner = Inl e"
      by (auto simp: snd_dependencyMapper split: sum.splits)
    from False cs have isub: "set (issued ?inner) \<subseteq>
        set (issued (dependencyMapper h this ?bp (Some d, Some d)))"
      by (auto simp: issued_dependencyMapper)
    from bluebirdMap_Inl [OF inner] obtain c where c: "c \<in> set cs"
      and alt: "copyMapper h this ?sbp ?bp c = Inl e \<or>
        (\<exists>t. copyMapper h this ?sbp ?bp c = Inr t \<and> snd t = Inl e \<and>
              set (issued t) \<subseteq> set (issued ?inner))" by blast
    from alt show ?thesis
    proof
      assume "copyMapper h this ?sbp ?bp c = Inl e"
      then have "\<exists>msg. e = ConfigurationError msg c \<and>
          (isAbsolute h (source c) \<or> isAbsolute h (target c))"
        by (auto simp: copyMapper_def Let_def split: if_splits)
      with ds d cs c show ?thesis by blast
    next
      assume "\<exists>t. copyMapper h this ?sbp ?bp c = Inr t \<and> snd t = Inl e \<and>
          set (issued t) \<subseteq> set (issued ?inner)"
      then obtain t where t: "copyMapper h this ?sbp ?bp c = Inr t" "snd t = Inl e"
        "set (issued t) \<subseteq> set (issued ?inner)" by blast
      from t(1) have teq: "t = sync h this (join h ?sbp (source c)) (join h ?bp (target c)) False"
        by (auto simp: copyMapper_def Let_def split: if_splits)
      from t(2) have "\<exists>op. e = OperationFailed op \<and> fails h op \<and> op \<in> set (issued t)"
        unfolding teq by (auto simp: snd_sync issued_sync split: if_splits)
      with t(3) isub dsub show ?thesis by blast
    qed
  qed
qed


subsection \<open>Elements that \<open>bluebirdMap\<close> passes over\<close>

lemma started_append:
  "started f (xs @ ys) =
     (case started f xs of
        (ts, Some e) \<Rightarrow> (ts, Some e)
      | (ts, None) \<Rightarrow> (case started f ys of (ts', thrown) \<Rightarrow> (ts @ ts', thrown)))"
  by (induction xs) (auto split: sum.splits prod.splits option.splits)

lemma rejections_skip: "rejections (rs @ Inr v # rs') = rejections (rs @ rs')"
  by (induction rs rule: rejections.induct) simp_all

lemma settle_skip:
  "(case settle time (rs @ Inr v # rs') of Inl e \<Rightarrow> Inl e | Inr vs \<Rightarrow> Inr ()) =
   (case settle time (rs @ rs') of Inl e \<Rightarrow> Inl e | Inr vs \<Rightarrow> Inr ())"
  by (simp add: settle_def rejections_skip split: list.splits)

lemma foldr_both_skip:
  "foldr both (ls @ Nothing # ls') Nothing = foldr both (ls @ ls') Nothing"
  by (induction ls) (simp_all add: both_def)

text \<open>An element whose mapper call returns a promise that issues nothing and fulfils
  changes neither the operations of \<open>bluebirdMap\<close> nor whether and how it rejects.\<close>

lemma bluebirdMap_skip:
  assumes "f x = Inr (([], Nothing), Inr v)"
  shows "await (bluebirdMap h (xs @ x # ys) f) (\<lambda>_. resolved ()) =
         await (bluebirdMap h (xs @ ys) f) (\<lambda>_. resolved ())"
proof -
  obtain ts thrown where xs: "started f xs = (ts, thrown)" by (cases "started f xs")
  obtain ts' thrown' where ys: "started f ys = (ts', thrown')" by (cases "started f ys")
  have later: "foldr both (map (\<lambda>t. snd (fst t)) ts @ Nothing # map (\<lambda>t. snd (fst t)) ts')
        Nothing =
      foldr both (map (\<lambda>t. snd (fst t)) ts @ map (\<lambda>t. snd (fst t)) ts') Nothing"
    by (rule foldr_both_skip)
  show ?thesis
  proof (cases thrown)
    case (Some e)
    with xs show ?thesis by (simp add: bluebirdMap_def started_append)
  next
    case None
    show ?thesis
    proof (cases thrown')
      case (Some e)
      with None xs ys assms later show ?thesis
        by (simp add: bluebirdMap_def started_append await_def)
    next
      case n: None
      from settle_skip [of "rejection_time h" "map snd ts" v "map snd ts'"]
      have "(case settle (rejection_time h) (map snd ts @ Inr v # map snd ts') of
               Inl e \<Rightarrow> Inl e | Inr vs \<Rightarrow> Inr ()) =
            (case settle (rejection_time h) (map snd ts @ map snd ts') of
               Inl e \<Rightarrow> Inl e | Inr vs \<Rightarrow> Inr ())" .
      with None n xs ys assms later show ?thesis
        by (auto simp: bluebirdMap_def started_append await_def resolved_def
            split: sum.splits)
    qed
  qed
qed


subsection \<open>Orders in time\<close>

lemma turns_turn: "turns (turn ops) = (if ops = [] then {[]} else {[ops]})"
  by (simp add: turn_def)

lemma turns_then_later: "turns (then_later a b) = {x @ y |x y. x \<in> turns a \<and> y \<in> turns b}"
  by (auto simp: then_later_def)

lemma turns_both: "turns (both a b) = (\<Union>x\<in>turns a. \<Union>y\<in>turns b. shuffles x y)"
  by (auto simp: both_def)

lemma turns_set: "ts \<in> turns l \<Longrightarrow> set (concat ts) = set (issued_later l)"
proof (induction l arbitrary: ts)
  case (Both a b)
  then obtain x y where x: "x \<in> turns a" and y: "y \<in> turns b" and ts: "ts \<in> shuffles x y"
    by auto
  from set_shuffles [OF ts] have "set (concat ts) = set (concat x) \<union> set (concat y)"
    by auto
  with Both.IH x y show ?case by simp
next
  case (Then a b)
  then obtain x y where x: "x \<in> turns a" and y: "y \<in> turns b" and ts: "ts = x @ y"
    by auto
  have "set (concat ts) = set (concat x) \<union> set (concat y)"
    by (simp add: ts)
  with Then.IH x y show ?case by simp
qed auto

text \<open>Whatever the order, the operations are those of the list \<open>issued\<close>.\<close>

lemma orders_set: "ops \<in> orders t \<Longrightarrow> set ops = set (issued t)"
  by (cases t) (auto simp: orders_def issued_def dest!: turns_set)

lemma orders_not_empty: "orders t \<noteq> {}"
proof -
  have "turns l \<noteq> {}" for l
  proof (induction l)
    case (Both a b)
    then obtain x y where "x \<in> turns a" "y \<in> turns b" by blast
    moreover have "splice x y \<in> shuffles x y" by (rule splice_in_shuffles)
    ultimately show ?case by auto
  qed auto
  then show ?thesis by (cases t) (auto simp: orders_def)
qed

lemma orders_await:
  "orders (await m k) =
     (case snd m of
        Inl e \<Rightarrow> orders m
      | Inr v \<Rightarrow> {x @ y |x y. x \<in> orders m \<and> y \<in> orders (k v)})"
proof (cases m)
  case (Pair a r)
  obtain now after where a: "a = (now, after)" by (cases a)
  show ?thesis
  proof (cases r)
    case (Inl e)
    with Pair a show ?thesis by (simp add: await_def orders_def)
  next
    case (Inr v)
    obtain now' after' r' where k: "k v = ((now', after'), r')"
      by (cases "k v") auto
    have "{now @ concat ts |ts. ts \<in> turns (then_later after (then_later (turn now') after'))} =
          {x @ y |x y. x \<in> {now @ concat ts |ts. ts \<in> turns after} \<and>
                       y \<in> {now' @ concat ts |ts. ts \<in> turns after'}}"
      (is "?L = ?R")
    proof
      show "?L \<subseteq> ?R"
      proof
        fix s assume "s \<in> ?L"
        then obtain ts where s: "s = now @ concat ts"
          and ts: "ts \<in> turns (then_later after (then_later (turn now') after'))" by blast
        from ts obtain x y where x: "x \<in> turns after"
          and y: "y \<in> turns (then_later (turn now') after')" and xy: "ts = x @ y"
          unfolding turns_then_later [of after] by blast
        from y obtain u z where u: "u \<in> turns (turn now')" and z: "z \<in> turns after'"
          and uz: "y = u @ z"
          unfolding turns_then_later [of "turn now'"] by blast
        from u have "concat u = now'" by (simp add: turns_turn split: if_splits)
        then have "s = (now @ concat x) @ (now' @ concat z)"
          by (simp add: s xy uz)
        with x z show "s \<in> ?R" by blast
      qed
      show "?R \<subseteq> ?L"
      proof
        fix s assume "s \<in> ?R"
        then obtain t1 t2 where t: "t1 \<in> turns after" "t2 \<in> turns after'"
          and s: "s = (now @ concat t1) @ now' @ concat t2" by auto
        have "(if now' = [] then [] else [now']) @ t2 \<in> turns (then_later (turn now') after')"
          using t(2) by (auto simp: turns_then_later turns_turn)
        with t(1) have "t1 @ (if now' = [] then [] else [now']) @ t2 \<in>
            turns (then_later after (then_later (turn now') after'))"
          by (subst turns_then_later) blast
        moreover have "s = now @ concat (t1 @ (if now' = [] then [] else [now']) @ t2)"
          by (simp add: s)
        ultimately show "s \<in> ?L" by blast
      qed
    qed
    with Pair a Inr k show ?thesis by (simp add: await_def orders_def)
  qed
qed

lemma orders_resolved: "orders (resolved v) = {[]}"
  by (simp add: resolved_def orders_def)

lemma orders_perform: "orders (perform h op) = {[op]}"
  by (simp add: perform_def orders_def)

lemma orders_logged: "orders (logged msg t) = (#) (Debug msg) ` orders t"
  by (cases t) (force simp: logged_def orders_def image_iff)

lemma orders_ensureDir: "orders (ensureDir h p) = {[EnsureDir p]}"
  by (simp add: ensureDir_def orders_perform)

lemma orders_execa: "orders (execa h cmd args) = {[Execa cmd args]}"
  by (simp add: execa_def orders_perform)

lemma orders_buildPath:
  "orders (buildPath h this n) = {[EnsureDir (resolve h (buildDirPath this) n)]}"
proof -
  have "orders (buildPath h this n) =
        (case snd (ensureDir h (resolve h (buildDirPath this) n)) of
           Inl e \<Rightarrow> orders (ensureDir h (resolve h (buildDirPath this) n))
         | Inr v \<Rightarrow> {x @ y |x y. x \<in> orders (ensureDir h (resolve h (buildDirPath this) n)) \<and>
                         y \<in> orders (resolved (resolve h (buildDirPath this) n)
                                       :: string task)})"
    unfolding buildPath_def Let_def by (rule orders_await)
  then show ?thesis
    by (simp only: orders_ensureDir orders_resolved) (simp split: sum.split)
qed

text \<open>\<open>sync\<close> and \<open>syncFromSrc\<close> are sequential: there is one order.\<close>

lemma orders_sync: "orders (sync h this s d wd) = {issued (sync h this s d wd)}"
proof -
  let ?dir = "parse_dir h d"
  let ?msg = "logMsg h this (rsyncPath h s) (rsyncPath h d) wd"
  let ?args = "syncOpts this wd @ [rsyncPath h s, rsyncPath h d]"
  have "orders (sync h this s d wd) =
        (case snd (ensureDir h ?dir) of
           Inl e \<Rightarrow> orders (ensureDir h ?dir)
         | Inr v \<Rightarrow> {x @ y |x y. x \<in> orders (ensureDir h ?dir) \<and>
                         y \<in> orders (logged ?msg (execa h ''rsync'' ?args))})"
    unfolding sync_def Let_def by (rule orders_await)
  also have "\<dots> = {issued (sync h this s d wd)}"
    by (simp only: orders_ensureDir orders_logged orders_execa snd_ensureDir issued_sync)
      simp
  finally show ?thesis .
qed

lemma orders_syncFromSrc: "orders (syncFromSrc h this m) = {issued (syncFromSrc h this m)}"
proof -
  let ?bp = "resolve h (buildDirPath this) (name m)"
  let ?src = "resolve h (projectRoot this) (path m) @ sep h"
  have "orders (syncFromSrc h this m) =
        (case snd (buildPath h this (name m)) of
           Inl e \<Rightarrow> orders (buildPath h this (name m))
         | Inr v \<Rightarrow> {x @ y |x y. x \<in> orders (buildPath h this (name m)) \<and>
                         y \<in> orders (sync h this ?src v True)})"
    unfolding syncFromSrc_def Let_def by (rule orders_await)
  also have "\<dots> = {issued (syncFromSrc h this m)}"
    by (simp only: orders_buildPath snd_buildPath issued_syncFromSrc orders_sync) simp
  finally show ?thesis .
qed


subsection \<open>The parent directory of the destination comes first\<close>

lemma turns_not_empty: "turns l \<noteq> {}"
proof (induction l)
  case (Both a b)
  then obtain x y where "x \<in> turns a" "y \<in> turns b" by blast
  moreover have "splice x y \<in> shuffles x y" by (rule splice_in_shuffles)
  ultimately show ?case by auto
qed auto

lemma ensured_before_rsync_mono:
  "ensured_before_rsync h this D ops \<Longrightarrow> D \<subseteq> D' \<Longrightarrow> ensured_before_rsync h this D' ops"
  unfolding ensured_before_rsync_def
proof (intro allI impI)
  fix before cmd args after
  assume all: "\<forall>before cmd args after. ops = before @ Execa cmd args # after \<longrightarrow>
        (\<exists>sourcePath destinationPath withDelete.
           cmd = ''rsync'' \<and>
           args = syncOpts this withDelete @
                    [rsyncPath h sourcePath, rsyncPath h destinationPath] \<and>
           \<not> fails h (EnsureDir (parse_dir h destinationPath)) \<and>
           EnsureDir (parse_dir h destinationPath) \<in> D \<union> set before)"
    and sub: "D \<subseteq> D'" and eq: "ops = before @ Execa cmd args # after"
  from all eq obtain s d wd where "cmd = ''rsync''"
    "args = syncOpts this wd @ [rsyncPath h s, rsyncPath h d]"
    "\<not> fails h (EnsureDir (parse_dir h d))"
    "EnsureDir (parse_dir h d) \<in> D \<union> set before"
    by blast
  with sub show "\<exists>sourcePath destinationPath withDelete.
           cmd = ''rsync'' \<and>
           args = syncOpts this withDelete @
                    [rsyncPath h sourcePath, rsyncPath h destinationPath] \<and>
           \<not> fails h (EnsureDir (parse_dir h destinationPath)) \<and>
           EnsureDir (parse_dir h destinationPath) \<in> D' \<union> set before"
    by blast
qed

lemma ensured_before_rsync_append:
  assumes a: "ensured_before_rsync h this D xs"
    and b: "ensured_before_rsync h this (D \<union> set xs) ys"
  shows "ensured_before_rsync h this D (xs @ ys)"
  unfolding ensured_before_rsync_def
proof (intro allI impI)
  fix before cmd args after
  assume eq: "xs @ ys = before @ Execa cmd args # after"
  then consider us where "xs = before @ us" "us @ ys = Execa cmd args # after"
    | us where "xs @ us = before" "ys = us @ Execa cmd args # after"
    by (auto simp: append_eq_append_conv2)
  then show "\<exists>sourcePath destinationPath withDelete.
           cmd = ''rsync'' \<and>
           args = syncOpts this withDelete @
                    [rsyncPath h sourcePath, rsyncPath h destinationPath] \<and>
           \<not> fails h (EnsureDir (parse_dir h destinationPath)) \<and>
           EnsureDir (parse_dir h destinationPath) \<in> D \<union> set before"
  proof cases
    case 1
    show ?thesis
    proof (cases us)
      case Nil
      with 1 have "ys = [] @ Execa cmd args # after" "before = xs" by simp_all
      with b show ?thesis unfolding ensured_before_rsync_def by fastforce
    next
      case (Cons u us')
      with 1 have "xs = before @ Execa cmd args # us'" by simp
      with a show ?thesis unfolding ensured_before_rsync_def by blast
    qed
  next
    case 2
    from b 2(2) obtain s d wd where "cmd = ''rsync''"
      "args = syncOpts this wd @ [rsyncPath h s, rsyncPath h d]"
      "\<not> fails h (EnsureDir (parse_dir h d))"
      "EnsureDir (parse_dir h d) \<in> (D \<union> set xs) \<union> set us"
      unfolding ensured_before_rsync_def by blast
    with 2(1) show ?thesis by auto
  qed
qed

lemma ensured_before_rsync_appendD1:
  "ensured_before_rsync h this D (xs @ ys) \<Longrightarrow> ensured_before_rsync h this D xs"
  unfolding ensured_before_rsync_def by (metis append.assoc append_Cons)

lemma ensured_before_rsync_appendD2:
  assumes "ensured_before_rsync h this D (xs @ ys)"
  shows "ensured_before_rsync h this (D \<union> set xs) ys"
  unfolding ensured_before_rsync_def
proof (intro allI impI)
  fix before cmd args after
  assume "ys = before @ Execa cmd args # after"
  then have "xs @ ys = (xs @ before) @ Execa cmd args # after" by simp
  with assms obtain s d wd where "cmd = ''rsync''"
    "args = syncOpts this wd @ [rsyncPath h s, rsyncPath h d]"
    "\<not> fails h (EnsureDir (parse_dir h d))"
    "EnsureDir (parse_dir h d) \<in> D \<union> set (xs @ before)"
    unfolding ensured_before_rsync_def by blast
  then show "\<exists>sourcePath destinationPath withDelete.
           cmd = ''rsync'' \<and>
           args = syncOpts this withDelete @
                    [rsyncPath h sourcePath, rsyncPath h destinationPath] \<and>
           \<not> fails h (EnsureDir (parse_dir h destinationPath)) \<and>
           EnsureDir (parse_dir h destinationPath) \<in> (D \<union> set xs) \<union> set before"
    by auto
qed

lemma ensured_before_rsync_no_Execa:
  "(\<And>cmd args. Execa cmd args \<notin> set ops) \<Longrightarrow> ensured_before_rsync h this D ops"
  unfolding ensured_before_rsync_def by (metis in_set_conv_decomp)

text \<open>Interleaving the turns of two promises keeps the property: what one promise needs
  done before its rsync, it has done itself.\<close>

lemma ensured_before_rsync_shuffles:
  "zs \<in> shuffles xs ys \<Longrightarrow> ensured_before_rsync h this D (concat xs) \<Longrightarrow>
   ensured_before_rsync h this D (concat ys) \<Longrightarrow> ensured_before_rsync h this D (concat zs)"
proof (induction xs ys arbitrary: zs D rule: shuffles.induct)
  case (1 ys)
  then show ?case by simp
next
  case (2 xs)
  then show ?case by simp
next
  case (3 x xs y ys)
  from "3.prems"(1) consider zs' where "zs = x # zs'" "zs' \<in> shuffles xs (y # ys)"
    | zs' where "zs = y # zs'" "zs' \<in> shuffles (x # xs) ys"
    by auto
  then show ?case
  proof cases
    case 1
    from "3.prems"(2) have x: "ensured_before_rsync h this D x"
      and xs: "ensured_before_rsync h this (D \<union> set x) (concat xs)"
      by (simp_all add: ensured_before_rsync_appendD1 ensured_before_rsync_appendD2)
    from "3.prems"(3) have "ensured_before_rsync h this (D \<union> set x) (concat (y # ys))"
      by (rule ensured_before_rsync_mono) auto
    from "3.IH"(1) [OF 1(2) xs this] x show ?thesis
      by (simp add: 1(1) ensured_before_rsync_append)
  next
    case 2
    from "3.prems"(3) have y: "ensured_before_rsync h this D y"
      and ys: "ensured_before_rsync h this (D \<union> set y) (concat ys)"
      by (simp_all add: ensured_before_rsync_appendD1 ensured_before_rsync_appendD2)
    from "3.prems"(2) have "ensured_before_rsync h this (D \<union> set y) (concat (x # xs))"
      by (rule ensured_before_rsync_mono) auto
    from "3.IH"(2) [OF 2(2) this ys] y show ?thesis
      by (simp add: 2(1) ensured_before_rsync_append)
  qed
qed

lemma ensured_before_rsync_foldr_both:
  "\<forall>l\<in>set ls. \<forall>ts\<in>turns l. ensured_before_rsync h this D (concat ts) \<Longrightarrow>
   ts \<in> turns (foldr both ls Nothing) \<Longrightarrow> ensured_before_rsync h this D (concat ts)"
proof (induction ls arbitrary: ts)
  case Nil
  then show ?case by (simp add: ensured_before_rsync_no_Execa)
next
  case (Cons l ls)
  from Cons.prems(2) obtain x y where x: "x \<in> turns l"
    and y: "y \<in> turns (foldr both ls Nothing)" and ts: "ts \<in> shuffles x y"
    by (auto simp: turns_both)
  from Cons.prems(1) x have "ensured_before_rsync h this D (concat x)" by simp
  moreover from Cons.IH [OF _ y] Cons.prems(1)
  have "ensured_before_rsync h this D (concat y)" by simp
  ultimately show ?case using ts by (rule ensured_before_rsync_shuffles [rotated])
qed

lemma ensured_before_rsync_nows:
  "\<forall>t\<in>set ts. ensured_before_rsync h this D (fst (fst t)) \<Longrightarrow>
   ensured_before_rsync h this D (concat (map (\<lambda>t. fst (fst t)) ts))"
proof (induction ts)
  case Nil
  show ?case by (simp add: ensured_before_rsync_no_Execa)
next
  case (Cons t ts)
  then have "ensured_before_rsync h this D (concat (map (\<lambda>t. fst (fst t)) ts))" by simp
  then have "ensured_before_rsync h this (D \<union> set (fst (fst t)))
               (concat (map (\<lambda>t. fst (fst t)) ts))"
    by (rule ensured_before_rsync_mono) simp
  with Cons.prems show ?case by (simp add: ensured_before_rsync_append)
qed

text \<open>The property holds in every order of \<open>bluebirdMap\<close> when it holds in every order of
  each promise the mapper returns.\<close>

lemma ensured_before_rsync_bluebirdMap:
  assumes each: "\<And>x t ops. x \<in> set xs \<Longrightarrow> f x = Inr t \<Longrightarrow> ops \<in> orders t \<Longrightarrow>
                   ensured_before_rsync h this D ops"
    and ops: "ops \<in> orders (bluebirdMap h xs f)"
  shows "ensured_before_rsync h this D ops"
proof -
  obtain ts thrown where st: "started f xs = (ts, thrown)" by (cases "started f xs")
  let ?nows = "concat (map (\<lambda>t. fst (fst t)) ts)"
  let ?D = "D \<union> set ?nows"
  from ops st obtain zs where zs: "zs \<in> turns (foldr both (map (\<lambda>t. snd (fst t)) ts) Nothing)"
    and eq: "ops = ?nows @ concat zs"
    by (auto simp: bluebirdMap_def orders_def)
  have t_ok: "ensured_before_rsync h this D (fst (fst t) @ concat us)"
    if "t \<in> set ts" "us \<in> turns (snd (fst t))" for t us
  proof -
    from started_tasks [OF st that(1)] obtain x where "x \<in> set xs" "f x = Inr t" by blast
    moreover from that(2) have "fst (fst t) @ concat us \<in> orders t"
      by (cases t) (auto simp: orders_def)
    ultimately show ?thesis by (rule each)
  qed
  have now_ok: "ensured_before_rsync h this D (fst (fst t))" if "t \<in> set ts" for t
  proof -
    obtain us where "us \<in> turns (snd (fst t))" using turns_not_empty by blast
    from t_ok [OF that this] show ?thesis by (rule ensured_before_rsync_appendD1)
  qed
  then have nows: "ensured_before_rsync h this D ?nows"
    by (intro ensured_before_rsync_nows) simp
  have "\<forall>l\<in>set (map (\<lambda>t. snd (fst t)) ts). \<forall>us\<in>turns l.
          ensured_before_rsync h this ?D (concat us)"
  proof (intro ballI)
    fix l us assume "l \<in> set (map (\<lambda>t. snd (fst t)) ts)" and us: "us \<in> turns l"
    then obtain t where t: "t \<in> set ts" and l: "l = snd (fst t)" by auto
    from t_ok [OF t] us l
    have "ensured_before_rsync h this (D \<union> set (fst (fst t))) (concat us)"
      by (simp add: ensured_before_rsync_appendD2)
    then show "ensured_before_rsync h this ?D (concat us)"
      by (rule ensured_before_rsync_mono) (use t in auto)
  qed
  from ensured_before_rsync_foldr_both [OF this zs] nows show ?thesis
    by (simp add: eq ensured_before_rsync_append)
qed

lemma ensured_before_rsync_await:
  assumes m: "\<And>ops. ops \<in> orders m \<Longrightarrow> ensured_before_rsync h this D ops"
    and k: "\<And>v ops. snd m = Inr v \<Longrightarrow> ops \<in> orders (k v) \<Longrightarrow>
              ensured_before_rsync h this D ops"
    and ops: "ops \<in> orders (await m k)"
  shows "ensured_before_rsync h this D ops"
proof (cases "snd m")
  case (Inl e)
  with ops show ?thesis by (simp add: orders_await m)
next
  case (Inr v)
  with ops obtain x y where x: "x \<in> orders m" and y: "y \<in> orders (k v)" and eq: "ops = x @ y"
    by (auto simp: orders_await)
  from k [OF Inr y] have "ensured_before_rsync h this (D \<union> set x) y"
    by (rule ensured_before_rsync_mono) simp
  with m [OF x] show ?thesis by (simp add: eq ensured_before_rsync_append)
qed

lemma ensured_before_rsync_sync:
  "ensured_before_rsync h this D (issued (sync h this s d wd))"
  unfolding ensured_before_rsync_def
proof (intro allI impI)
  fix before cmd args after
  assume eq: "issued (sync h this s d wd) = before @ Execa cmd args # after"
  then have nf: "\<not> fails h (EnsureDir (parse_dir h d))"
    by (auto simp: issued_sync Cons_eq_append_conv split: if_splits)
  with eq have "before = [EnsureDir (parse_dir h d),
        Debug (logMsg h this (rsyncPath h s) (rsyncPath h d) wd)] \<and>
      cmd = ''rsync'' \<and> args = syncOpts this wd @ [rsyncPath h s, rsyncPath h d]"
    by (auto simp: issued_sync Cons_eq_append_conv)
  with nf show "\<exists>sourcePath destinationPath withDelete.
           cmd = ''rsync'' \<and>
           args = syncOpts this withDelete @
                    [rsyncPath h sourcePath, rsyncPath h destinationPath] \<and>
           \<not> fails h (EnsureDir (parse_dir h destinationPath)) \<and>
           EnsureDir (parse_dir h destinationPath) \<in> D \<union> set before"
    by auto
qed

lemma ensured_before_rsync_buildPath:
  "ops \<in> orders (buildPath h this n) \<Longrightarrow> ensured_before_rsync h this D ops"
  by (simp add: orders_buildPath ensured_before_rsync_no_Execa)

lemma ensured_before_rsync_copyMapper:
  "copyMapper h this sbp bp c = Inr t \<Longrightarrow> ops \<in> orders t \<Longrightarrow>
     ensured_before_rsync h this D ops"
  by (auto simp: copyMapper_def Let_def orders_sync ensured_before_rsync_sync split: if_splits)

lemma ensured_before_rsync_dependencyMapper:
  assumes "ops \<in> orders (dependencyMapper h this bp entry)"
  shows "ensured_before_rsync h this D ops"
proof (cases entry)
  case (Pair sm dc)
  show ?thesis
  proof (cases "\<exists>s d cs. sm = Some s \<and> dc = Some d \<and> copy d = Some cs")
    case True
    then obtain s d cs where sd: "sm = Some s" "dc = Some d" "copy d = Some cs" by blast
    let ?sbp = "resolve h (buildDirPath this) (getModuleKey h (dep_name s) (plugin s))"
    from assms Pair sd
    have "ops \<in> orders (await (buildPath h this (getModuleKey h (dep_name s) (plugin s)))
             (\<lambda>sourceBuildPath.
                await (bluebirdMap h cs (copyMapper h this sourceBuildPath bp))
                  (\<lambda>_. resolved ())))"
      by (simp add: dependencyMapper_def)
    then show ?thesis
    proof (rule ensured_before_rsync_await [rotated 2])
      fix ops assume "ops \<in> orders (buildPath h this (getModuleKey h (dep_name s) (plugin s)))"
      then show "ensured_before_rsync h this D ops" by (rule ensured_before_rsync_buildPath)
    next
      fix v ops
      assume "ops \<in> orders (await (bluebirdMap h cs (copyMapper h this v bp))
                  (\<lambda>_. resolved ()))"
      then show "ensured_before_rsync h this D ops"
      proof (rule ensured_before_rsync_await [rotated 2])
        fix ops assume "ops \<in> orders (bluebirdMap h cs (copyMapper h this v bp))"
        then show "ensured_before_rsync h this D ops"
          by (rule ensured_before_rsync_bluebirdMap [rotated])
            (rule ensured_before_rsync_copyMapper)
      next
        fix u :: "unit list" and ops
        assume "ops \<in> orders (resolved () :: unit task)"
        then show "ensured_before_rsync h this D ops"
          by (simp add: orders_resolved ensured_before_rsync_no_Execa)
      qed
    qed
  next
    case False
    with Pair have "dependencyMapper h this bp entry = resolved ()"
      by (auto simp: dependencyMapper_def split: option.splits)
    with assms show ?thesis by (simp add: orders_resolved ensured_before_rsync_no_Execa)
  qed
qed

lemma syncDependencyProducts_unfold:
  "syncDependencyProducts h this m =
     await (buildPath h this (name m)) (\<lambda>bp.
       await (bluebirdMap h
                (case dependencies (build m) of None \<Rightarrow> [] | Some ds \<Rightarrow> zip_lodash ds ds)
                (\<lambda>entry. Inr (dependencyMapper h this bp entry)))
         (\<lambda>_. resolved ()))"
  by (cases "dependencies (build m)") (simp_all add: syncDependencyProducts_def Let_def)

lemma ensured_before_rsync_syncDependencyProducts:
  assumes "ops \<in> orders (syncDependencyProducts h this m)"
  shows "ensured_before_rsync h this D ops"
  using assms unfolding syncDependencyProducts_unfold
proof (rule ensured_before_rsync_await [rotated 2])
  fix ops assume "ops \<in> orders (buildPath h this (name m))"
  then show "ensured_before_rsync h this D ops" by (rule ensured_before_rsync_buildPath)
next
  fix v ops
  assume "ops \<in> orders (await (bluebirdMap h
            (case dependencies (build m) of None \<Rightarrow> [] | Some ds \<Rightarrow> zip_lodash ds ds)
            (\<lambda>entry. Inr (dependencyMapper h this v entry))) (\<lambda>_. resolved ()))"
  then show "ensured_before_rsync h this D ops"
  proof (rule ensured_before_rsync_await [rotated 2])
    fix ops
    assume "ops \<in> orders (bluebirdMap h
            (case dependencies (build m) of None \<Rightarrow> [] | Some ds \<Rightarrow> zip_lodash ds ds)
            (\<lambda>entry. Inr (dependencyMapper h this v entry)))"
    then show "ensured_before_rsync h this D ops"
    proof (rule ensured_before_rsync_bluebirdMap [rotated])
      fix x t ops
      assume "Inr (dependencyMapper h this v x) = Inr t" and "ops \<in> orders t"
      then have "ops \<in> orders (dependencyMapper h this v x)" by simp
      then show "ensured_before_rsync h this D ops"
        by (rule ensured_before_rsync_dependencyMapper)
    qed
  next
    fix u :: "unit list" and ops
    assume "ops \<in> orders (resolved () :: unit task)"
    then show "ensured_before_rsync h this D ops"
      by (simp add: orders_resolved ensured_before_rsync_no_Execa)
  qed
qed

lemma ensured_before_rsync_syncFromSrc:
  "ops \<in> orders (syncFromSrc h this m) \<Longrightarrow> ensured_before_rsync h this D ops"
  by (simp add: orders_syncFromSrc issued_syncFromSrc)
    (auto simp: ensured_before_rsync_no_Execa ensured_before_rsync_sync
      intro!: ensured_before_rsync_append [of _ _ _ "[EnsureDir p]" for p, simplified])

text \<open>Every order of \<open>bluebirdMap\<close> contains, in order, the operations of each promise the
  mapper returned.\<close>

lemma subseq_shuffles:
  "zs \<in> shuffles xs ys \<Longrightarrow> subseq xs zs \<and> subseq ys zs"
proof (induction xs ys arbitrary: zs rule: shuffles.induct)
  case (3 x xs y ys)
  then consider zs' where "zs = x # zs'" "zs' \<in> shuffles xs (y # ys)"
    | zs' where "zs = y # zs'" "zs' \<in> shuffles (x # xs) ys"
    by auto
  then show ?case
  proof cases
    case 1
    from "3.IH"(1) [OF 1(2)] have "subseq xs zs'" and "subseq (y # ys) zs'" by simp_all
    then show ?thesis unfolding 1(1) by (blast intro: subseq_Cons2 list_emb_Cons)
  next
    case 2
    from "3.IH"(2) [OF 2(2)] have "subseq (x # xs) zs'" and "subseq ys zs'" by simp_all
    then show ?thesis unfolding 2(1) by (blast intro: subseq_Cons2 list_emb_Cons)
  qed
qed simp_all

lemma subseq_concat: "subseq xs ys \<Longrightarrow> subseq (concat xs) (concat ys)"
proof (induction rule: list_emb.induct)
  case (list_emb_Nil ys)
  show ?case by simp
next
  case (list_emb_Cons xs ys y)
  then show ?case by (simp add: subseq_drop_many)
next
  case (list_emb_Cons2 x y xs ys)
  then show ?case by (simp add: subseq_append')
qed

lemma subseq_concat_member: "x \<in> set xs \<Longrightarrow> subseq (f x) (concat (map f xs))"
proof -
  assume "x \<in> set xs"
  then obtain a b where "xs = a @ x # b" by (auto simp: in_set_conv_decomp)
  then show ?thesis by (simp add: subseq_drop_many subseq_rev_drop_many)
qed

lemma turns_foldr_both_subseq:
  "l \<in> set ls \<Longrightarrow> ts \<in> turns (foldr both ls Nothing) \<Longrightarrow> \<exists>us\<in>turns l. subseq us ts"
proof (induction ls arbitrary: ts)
  case Nil
  then show ?case by simp
next
  case (Cons l' ls)
  from Cons.prems(2) obtain x y where x: "x \<in> turns l'"
    and y: "y \<in> turns (foldr both ls Nothing)" and ts: "ts \<in> shuffles x y"
    by (auto simp: turns_both)
  show ?case
  proof (cases "l = l'")
    case True
    with x subseq_shuffles [OF ts] show ?thesis by blast
  next
    case False
    with Cons.prems(1) have "l \<in> set ls" by simp
    from Cons.IH [OF this y] obtain us where "us \<in> turns l" "subseq us y" by blast
    with subseq_shuffles [OF ts] show ?thesis
      by (meson subseq_order.order_trans)
  qed
qed

lemma orders_bluebirdMap_subseq:
  assumes st: "started f xs = (ts, thrown)" and t: "t \<in> set ts"
    and ops: "ops \<in> orders (bluebirdMap h xs f)"
  shows "\<exists>ops'\<in>orders t. subseq ops' ops"
proof -
  let ?nows = "concat (map (\<lambda>t. fst (fst t)) ts)"
  from ops st obtain zs where zs: "zs \<in> turns (foldr both (map (\<lambda>t. snd (fst t)) ts) Nothing)"
    and eq: "ops = ?nows @ concat zs"
    by (auto simp: bluebirdMap_def orders_def)
  from t have "snd (fst t) \<in> set (map (\<lambda>t. snd (fst t)) ts)" by simp
  from turns_foldr_both_subseq [OF this zs] obtain us where us: "us \<in> turns (snd (fst t))"
    and sub: "subseq us zs" by blast
  from us have "fst (fst t) @ concat us \<in> orders t"
    by (cases t) (auto simp: orders_def)
  moreover have "subseq (fst (fst t) @ concat us) ops"
    unfolding eq using t sub
    by (intro list_emb_append_mono subseq_concat subseq_concat_member)
  ultimately show ?thesis by blast
qed

lemma started_no_throw:
  "\<forall>x\<in>set xs. \<exists>t. f x = Inr t \<Longrightarrow> snd (started f xs) = None"
  by (induction xs) (auto split: prod.splits)

lemma orders_bluebirdMap_mapper_subseq:
  assumes all: "\<forall>x\<in>set xs. \<exists>t. f x = Inr t" and x: "x \<in> set xs" and fx: "f x = Inr t"
    and ops: "ops \<in> orders (bluebirdMap h xs f)"
  shows "\<exists>ops'\<in>orders t. subseq ops' ops"
proof -
  obtain ts where st: "started f xs = (ts, None)"
    using started_no_throw [OF all] by (cases "started f xs") auto
  from started_all [OF st x] fx have "t \<in> set ts" by auto
  from orders_bluebirdMap_subseq [OF st this ops] show ?thesis .
qed

lemma orders_await_subseq:
  assumes "snd m = Inr v" and "ops \<in> orders (await m k)"
  shows "\<exists>ops'\<in>orders (k v). subseq ops' ops"
  using assms by (auto simp: orders_await subseq_drop_many)

lemma orders_await_resolved: "orders (await m (\<lambda>_. resolved ())) = orders m"
  by (simp add: orders_await orders_resolved split: sum.split)

text \<open>Every order of \<open>syncDependencyProducts\<close> contains, in order, the operations of the
  \<open>sync\<close> of every copy specification that is reached.\<close>

lemma syncDependencyProducts_sync_subseq:
  assumes ds: "dependencies (build m) = Some ds" and d: "d \<in> set ds"
    and cs: "copy d = Some cs" and c: "c \<in> set cs"
    and rel: "\<forall>c'\<in>set cs. \<not> isAbsolute h (source c') \<and> \<not> isAbsolute h (target c')"
    and bp: "\<not> fails h (EnsureDir (resolve h (buildDirPath this) (name m)))"
    and sbp: "\<not> fails h (EnsureDir (resolve h (buildDirPath this)
                 (getModuleKey h (dep_name d) (plugin d))))"
    and ops: "ops \<in> orders (syncDependencyProducts h this m)"
  shows "subseq (issued (sync h this
           (join h (resolve h (buildDirPath this) (getModuleKey h (dep_name d) (plugin d)))
              (source c))
           (join h (resolve h (buildDirPath this) (name m)) (target c)) False)) ops"
proof -
  let ?bp = "resolve h (buildDirPath this) (name m)"
  let ?sbp = "resolve h (buildDirPath this) (getModuleKey h (dep_name d) (plugin d))"
  let ?outer = "bluebirdMap h (zip_lodash ds ds)
                  (\<lambda>entry. Inr (dependencyMapper h this ?bp entry))"
  let ?inner = "bluebirdMap h cs (copyMapper h this ?sbp ?bp)"
  from bp have "snd (buildPath h this (name m)) = Inr ?bp" by (simp add: snd_buildPath)
  from orders_await_subseq [OF this ops [unfolded syncDependencyProducts_unfold]] ds
  obtain o1 where o1: "o1 \<in> orders ?outer" "subseq o1 ops"
    by (auto simp: orders_await_resolved)
  have "\<exists>o2\<in>orders (dependencyMapper h this ?bp (Some d, Some d)). subseq o2 o1"
    using o1(1)
    by (rule orders_bluebirdMap_mapper_subseq [rotated 3])
      (use d in \<open>auto simp: zip_lodash_same\<close>)
  then obtain o2 where o2: "o2 \<in> orders (dependencyMapper h this ?bp (Some d, Some d))"
    "subseq o2 o1" by blast
  from o2(1) cs have o2': "o2 \<in> orders (await
      (buildPath h this (getModuleKey h (dep_name d) (plugin d)))
      (\<lambda>sourceBuildPath. await (bluebirdMap h cs (copyMapper h this sourceBuildPath ?bp))
         (\<lambda>_. resolved ())))"
    by (simp add: dependencyMapper_def)
  from sbp have "snd (buildPath h this (getModuleKey h (dep_name d) (plugin d))) = Inr ?sbp"
    by (simp add: snd_buildPath)
  from orders_await_subseq [OF this o2']
  obtain o3 where o3: "o3 \<in> orders ?inner" "subseq o3 o2"
    by (auto simp: orders_await_resolved)
  let ?sync = "sync h this (join h ?sbp (source c)) (join h ?bp (target c)) False"
  have "\<exists>o4\<in>orders ?sync. subseq o4 o3"
    using o3(1)
  proof (rule orders_bluebirdMap_mapper_subseq [rotated 3])
    show "\<forall>x\<in>set cs. \<exists>t. copyMapper h this ?sbp ?bp x = Inr t"
      using rel by (simp add: copyMapper_def Let_def)
    show "c \<in> set cs" by (rule c)
    show "copyMapper h this ?sbp ?bp c = Inr ?sync"
      using rel c by (simp add: copyMapper_def Let_def)
  qed
  then have "subseq (issued ?sync) o3" by (simp add: orders_sync)
  with o3(2) o2(2) o1(2) show ?thesis
    by (meson subseq_order.order_trans)
qed


text \<open>On the example, an order of \<open>syncDependencyProducts\<close> in which the rsync of the
  second copy of \<open>lib\<close> is started before the rsync of the first.\<close>

lemma example_interleaved_order:
  "[EnsureDir ''/proj/.garden/build/web'', EnsureDir ''/proj/.garden/build/lib'',
    EnsureDir ''/proj/.garden/build/web/vendor'', EnsureDir ''/proj/.garden/build/web'',
    Debug ''Syncing from .garden/build/lib/README.md to .garden/build/web/docs'',
    Execa ''rsync''
      [''-rptgo'', ''--exclude=/proj/.garden/build'',
       ''/proj/.garden/build/lib/README.md'', ''/proj/.garden/build/web/docs''],
    Debug ''Syncing from .garden/build/lib/dist to .garden/build/web/vendor/lib'',
    Execa ''rsync''
      [''-rptgo'', ''--exclude=/proj/.garden/build'',
       ''/proj/.garden/build/lib/dist'', ''/proj/.garden/build/web/vendor/lib'']]
   \<in> orders (syncDependencyProducts (example_host never) example_buildDir example_module)"
proof -
  let ?D1 = "Debug ''Syncing from .garden/build/lib/dist to .garden/build/web/vendor/lib''"
  let ?X1 = "Execa ''rsync''
      [''-rptgo'', ''--exclude=/proj/.garden/build'',
       ''/proj/.garden/build/lib/dist'', ''/proj/.garden/build/web/vendor/lib'']"
  let ?D2 = "Debug ''Syncing from .garden/build/lib/README.md to .garden/build/web/docs''"
  let ?X2 = "Execa ''rsync''
      [''-rptgo'', ''--exclude=/proj/.garden/build'',
       ''/proj/.garden/build/lib/README.md'', ''/proj/.garden/build/web/docs'']"
  have "[[?D2, ?X2], [?D1, ?X1]] \<in> turns (Both (Turn [?D1, ?X1]) (Turn [?D2, ?X2]))"
    by simp
  then have "[[EnsureDir ''/proj/.garden/build/lib'']] @
      [[EnsureDir ''/proj/.garden/build/web/vendor'', EnsureDir ''/proj/.garden/build/web'']] @
      [[?D2, ?X2], [?D1, ?X1]]
    \<in> turns (Then (Turn [EnsureDir ''/proj/.garden/build/lib''])
         (Then (Turn [EnsureDir ''/proj/.garden/build/web/vendor'',
                      EnsureDir ''/proj/.garden/build/web''])
            (Both (Turn [?D1, ?X1]) (Turn [?D2, ?X2]))))"
    by (simp del: append.simps)
  then show ?thesis
    unfolding example_syncDependencyProducts orders_def by force
qed


text \<open>
  Claim C6. Whatever the order in time in which the operations of \<open>syncFromSrc\<close> or of
  \<open>syncDependencyProducts\<close> are issued, every started process is the rsync call of a
  \<open>sync\<close> with some destination path, and before it \<open>ensureDir\<close> was issued for
  \<open>parse(destinationPath).dir\<close> and did not fail. The calls are issued: once the
  build path of the module is there, \<open>syncFromSrc\<close> issues \<open>ensureDir\<close> for the parent
  directory of the destination and then, if that succeeded, the log line and rsync, in
  this order and nothing else; \<open>syncDependencyProducts\<close> issues, for every copy
  specification of a dependency whose copy specifications are all relative, the same
  three operations in this order, among the operations of the other copies.
\<close>

theorem ensureDir_precedes_rsync:
  "(ops \<in> orders (syncFromSrc h this m) \<union> orders (syncDependencyProducts h this m) \<longrightarrow>
    ops = before @ Execa cmd args # after \<longrightarrow>
      (\<exists>sourcePath destinationPath withDelete.
           cmd = ''rsync'' \<and>
           args = syncOpts this withDelete @
                    [rsyncPath h sourcePath, rsyncPath h destinationPath] \<and>
           \<not> fails h (EnsureDir (parse_dir h destinationPath)) \<and>
           EnsureDir (parse_dir h destinationPath) \<in> set before)) \<and>
   (\<not> fails h (EnsureDir (resolve h (buildDirPath this) (name m))) \<longrightarrow>
      orders (syncFromSrc h this m) =
        {EnsureDir (resolve h (buildDirPath this) (name m)) #
         EnsureDir (parse_dir h (resolve h (buildDirPath this) (name m))) #
         (if fails h (EnsureDir (parse_dir h (resolve h (buildDirPath this) (name m))))
          then []
          else [Debug (logMsg h this
                  (rsyncPath h (resolve h (projectRoot this) (path m) @ sep h))
                  (rsyncPath h (resolve h (buildDirPath this) (name m))) True),
                Execa ''rsync'' (syncOpts this True @
                  [rsyncPath h (resolve h (projectRoot this) (path m) @ sep h),
                   rsyncPath h (resolve h (buildDirPath this) (name m))])])}) \<and>
   (dependencies (build m) = Some ds \<and> d \<in> set ds \<and> copy d = Some cs \<and> c \<in> set cs \<and>
    (\<forall>c'\<in>set cs. \<not> isAbsolute h (source c') \<and> \<not> isAbsolute h (target c')) \<and>
    \<not> fails h (EnsureDir (resolve h (buildDirPath this) (name m))) \<and>
    \<not> fails h (EnsureDir (resolve h (buildDirPath this)
                  (getModuleKey h (dep_name d) (plugin d)))) \<and>
    sourcePath = join h (resolve h (buildDirPath this)
                   (getModuleKey h (dep_name d) (plugin d))) (source c) \<and>
    destinationPath = join h (resolve h (buildDirPath this) (name m)) (target c) \<and>
    ops' \<in> orders (syncDependencyProducts h this m) \<longrightarrow>
      subseq
        (EnsureDir (parse_dir h destinationPath) #
         (if fails h (EnsureDir (parse_dir h destinationPath)) then []
          else [Debug (logMsg h this (rsyncPath h sourcePath) (rsyncPath h destinationPath)
                  False),
                Execa ''rsync'' (syncOpts this False @
                  [rsyncPath h sourcePath, rsyncPath h destinationPath])]))
        ops')"
proof (intro conjI impI)
  assume "ops \<in> orders (syncFromSrc h this m) \<union> orders (syncDependencyProducts h this m)"
  then have "ensured_before_rsync h this {} ops"
    by (auto intro: ensured_before_rsync_syncFromSrc
        ensured_before_rsync_syncDependencyProducts)
  moreover assume "ops = before @ Execa cmd args # after"
  ultimately show "\<exists>sourcePath destinationPath withDelete.
           cmd = ''rsync'' \<and>
           args = syncOpts this withDelete @
                    [rsyncPath h sourcePath, rsyncPath h destinationPath] \<and>
           \<not> fails h (EnsureDir (parse_dir h destinationPath)) \<and>
           EnsureDir (parse_dir h destinationPath) \<in> set before"
    unfolding ensured_before_rsync_def by blast
next
  assume "\<not> fails h (EnsureDir (resolve h (buildDirPath this) (name m)))"
  then show "orders (syncFromSrc h this m) =
        {EnsureDir (resolve h (buildDirPath this) (name m)) #
         EnsureDir (parse_dir h (resolve h (buildDirPath this) (name m))) #
         (if fails h (EnsureDir (parse_dir h (resolve h (buildDirPath this) (name m))))
          then []
          else [Debug (logMsg h this
                  (rsyncPath h (resolve h (projectRoot this) (path m) @ sep h))
                  (rsyncPath h (resolve h (buildDirPath this) (name m))) True),
                Execa ''rsync'' (syncOpts this True @
                  [rsyncPath h (resolve h (projectRoot this) (path m) @ sep h),
                   rsyncPath h (resolve h (buildDirPath this) (name m))])])}"
    by (simp add: orders_syncFromSrc issued_syncFromSrc issued_sync)
next
  assume a: "dependencies (build m) = Some ds \<and> d \<in> set ds \<and> copy d = Some cs \<and> c \<in> set cs \<and>
    (\<forall>c'\<in>set cs. \<not> isAbsolute h (source c') \<and> \<not> isAbsolute h (target c')) \<and>
    \<not> fails h (EnsureDir (resolve h (buildDirPath this) (name m))) \<and>
    \<not> fails h (EnsureDir (resolve h (buildDirPath this)
                  (getModuleKey h (dep_name d) (plugin d)))) \<and>
    sourcePath = join h (resolve h (buildDirPath this)
                   (getModuleKey h (dep_name d) (plugin d))) (source c) \<and>
    destinationPath = join h (resolve h (buildDirPath this) (name m)) (target c) \<and>
    ops' \<in> orders (syncDependencyProducts h this m)"
  then have "subseq (issued (sync h this sourcePath destinationPath False)) ops'"
    using syncDependencyProducts_sync_subseq [of m ds d cs c h this ops'] by simp
  then show "subseq
        (EnsureDir (parse_dir h destinationPath) #
         (if fails h (EnsureDir (parse_dir h destinationPath)) then []
          else [Debug (logMsg h this (rsyncPath h sourcePath) (rsyncPath h destinationPath)
                  False),
                Execa ''rsync'' (syncOpts this False @
                  [rsyncPath h sourcePath, rsyncPath h destinationPath])]))
        ops'"
    by (simp only: issued_sync)
qed

text \<open>On the examples: the one order of \<open>syncFromSrc\<close>, and the order of
  \<open>syncDependencyProducts\<close> in which the rsync of the second copy of \<open>lib\<close> is started
  before the rsync of the first.\<close>

theorem ensureDir_precedes_rsync_witness:
  "[EnsureDir ''/proj/.garden/build/web'', EnsureDir ''/proj/.garden/build/lib'',
    EnsureDir ''/proj/.garden/build/web/vendor'', EnsureDir ''/proj/.garden/build/web'',
    Debug ''Syncing from .garden/build/lib/README.md to .garden/build/web/docs'',
    Execa ''rsync''
      [''-rptgo'', ''--exclude=/proj/.garden/build'',
       ''/proj/.garden/build/lib/README.md'', ''/proj/.garden/build/web/docs''],
    Debug ''Syncing from .garden/build/lib/dist to .garden/build/web/vendor/lib'',
    Execa ''rsync''
      [''-rptgo'', ''--exclude=/proj/.garden/build'',
       ''/proj/.garden/build/lib/dist'', ''/proj/.garden/build/web/vendor/lib'']]
   \<in> orders (syncDependencyProducts (example_host never) example_buildDir example_module) \<and>
   (\<exists>sourcePath destinationPath withDelete.
      [''-rptgo'', ''--exclude=/proj/.garden/build'',
       ''/proj/.garden/build/lib/dist'', ''/proj/.garden/build/web/vendor/lib''] =
      syncOpts example_buildDir withDelete @
        [rsyncPath (example_host never) sourcePath,
         rsyncPath (example_host never) destinationPath] \<and>
      EnsureDir (parse_dir (example_host never) destinationPath) \<in>
        set [EnsureDir ''/proj/.garden/build/web'', EnsureDir ''/proj/.garden/build/lib'',
             EnsureDir ''/proj/.garden/build/web/vendor'',
             EnsureDir ''/proj/.garden/build/web'',
             Debug ''Syncing from .garden/build/lib/README.md to .garden/build/web/docs'',
             Execa ''rsync''
               [''-rptgo'', ''--exclude=/proj/.garden/build'',
                ''/proj/.garden/build/lib/README.md'', ''/proj/.garden/build/web/docs''],
             Debug ''Syncing from .garden/build/lib/dist to .garden/build/web/vendor/lib'']) \<and>
   orders (syncFromSrc (example_host never) example_buildDir example_module) =
     {[EnsureDir ''/proj/.garden/build/web'', EnsureDir ''/proj/.garden/build'',
       Debug ''Syncing from services/web to .garden/build/web (with delete)'',
       Execa ''rsync''
         [''-rptgo'', ''--exclude=/proj/.garden/build'', ''--delete'',
          ''/proj/services/web/'', ''/proj/.garden/build/web'']]} \<and>
   subseq
     [EnsureDir ''/proj/.garden/build/web/vendor'',
      Debug ''Syncing from .garden/build/lib/dist to .garden/build/web/vendor/lib'',
      Execa ''rsync''
        [''-rptgo'', ''--exclude=/proj/.garden/build'',
         ''/proj/.garden/build/lib/dist'', ''/proj/.garden/build/web/vendor/lib'']]
     [EnsureDir ''/proj/.garden/build/web'', EnsureDir ''/proj/.garden/build/lib'',
      EnsureDir ''/proj/.garden/build/web/vendor'', EnsureDir ''/proj/.garden/build/web'',
      Debug ''Syncing from .garden/build/lib/README.md to .garden/build/web/docs'',
      Execa ''rsync''
        [''-rptgo'', ''--exclude=/proj/.garden/build'',
         ''/proj/.garden/build/lib/README.md'', ''/proj/.garden/build/web/docs''],
      Debug ''Syncing from .garden/build/lib/dist to .garden/build/web/vendor/lib'',
      Execa ''rsync''
        [''-rptgo'', ''--exclude=/proj/.garden/build'',
         ''/proj/.garden/build/lib/dist'', ''/proj/.garden/build/web/vendor/lib'']]"
proof -
  let ?h = "example_host never"
  let ?D1 = "Debug ''Syncing from .garden/build/lib/dist to .garden/build/web/vendor/lib''"
  let ?a1 = "[''-rptgo'', ''--exclude=/proj/.garden/build'',
       ''/proj/.garden/build/lib/dist'', ''/proj/.garden/build/web/vendor/lib'']"
  let ?D2 = "Debug ''Syncing from .garden/build/lib/README.md to .garden/build/web/docs''"
  let ?X2 = "Execa ''rsync''
      [''-rptgo'', ''--exclude=/proj/.garden/build'',
       ''/proj/.garden/build/lib/README.md'', ''/proj/.garden/build/web/docs'']"
  let ?before = "[EnsureDir ''/proj/.garden/build/web'', EnsureDir ''/proj/.garden/build/lib'',
    EnsureDir ''/proj/.garden/build/web/vendor'', EnsureDir ''/proj/.garden/build/web'',
    ?D2, ?X2, ?D1]"
  let ?ops = "?before @ Execa ''rsync'' ?a1 # []"
  let ?c = "\<lparr>source = ''dist'', target = ''vendor/lib''\<rparr>"
  let ?cs = "[?c, \<lparr>source = ''README.md'', target = ''docs''\<rparr>]"
  let ?d = "\<lparr>dep_name = ''lib'', plugin = None, copy = Some ?cs\<rparr>"
  let ?ds = "[?d, \<lparr>dep_name = ''base'', plugin = None, copy = None\<rparr>]"
  have mem: "?ops \<in> orders (syncDependencyProducts ?h example_buildDir example_module)"
    using example_interleaved_order by simp
  have deps: "dependencies (build example_module) = Some ?ds \<and> ?d \<in> set ?ds \<and>
      copy ?d = Some ?cs \<and> ?c \<in> set ?cs"
    by (simp add: example_module_def)
  have rel: "\<forall>c'\<in>set ?cs. \<not> isAbsolute ?h (source c') \<and> \<not> isAbsolute ?h (target c')"
    by (simp add: example_host_def posix_host_def posix_isAbsolute_def)
  have s: "''/proj/.garden/build/lib/dist'' =
      join ?h (resolve ?h (buildDirPath example_buildDir)
        (getModuleKey ?h (dep_name ?d) (plugin ?d))) (source ?c)"
    by code_simp
  have d: "''/proj/.garden/build/web/vendor/lib'' =
      join ?h (resolve ?h (buildDirPath example_buildDir) (name example_module)) (target ?c)"
    by code_simp
  have bp: "resolve ?h (buildDirPath example_buildDir) (name example_module) =
      ''/proj/.garden/build/web''"
    by code_simp
  have bpd: "parse_dir ?h ''/proj/.garden/build/web'' = ''/proj/.garden/build''"
    by code_simp
  have smsg: "logMsg ?h example_buildDir
      (rsyncPath ?h (resolve ?h (projectRoot example_buildDir) (path example_module) @ sep ?h))
      (rsyncPath ?h ''/proj/.garden/build/web'') True =
      ''Syncing from services/web to .garden/build/web (with delete)''"
    by code_simp
  have sargs: "syncOpts example_buildDir True @
      [rsyncPath ?h (resolve ?h (projectRoot example_buildDir) (path example_module) @ sep ?h),
       rsyncPath ?h ''/proj/.garden/build/web''] =
      [''-rptgo'', ''--exclude=/proj/.garden/build'', ''--delete'',
       ''/proj/services/web/'', ''/proj/.garden/build/web'']"
    by code_simp
  have parent: "parse_dir ?h ''/proj/.garden/build/web/vendor/lib'' =
      ''/proj/.garden/build/web/vendor''"
    by code_simp
  have msg: "logMsg ?h example_buildDir (rsyncPath ?h ''/proj/.garden/build/lib/dist'')
      (rsyncPath ?h ''/proj/.garden/build/web/vendor/lib'') False =
      ''Syncing from .garden/build/lib/dist to .garden/build/web/vendor/lib''"
    by code_simp
  have args: "syncOpts example_buildDir False @
      [rsyncPath ?h ''/proj/.garden/build/lib/dist'',
       rsyncPath ?h ''/proj/.garden/build/web/vendor/lib''] = ?a1"
    by code_simp
  note inst = ensureDir_precedes_rsync [of ?ops ?h example_buildDir example_module ?before
      "''rsync''" ?a1 "[]" ?ds ?d ?cs ?c "''/proj/.garden/build/lib/dist''"
      "''/proj/.garden/build/web/vendor/lib''" ?ops]
  from inst mem have first: "\<exists>sourcePath destinationPath withDelete.
      ?a1 = syncOpts example_buildDir withDelete @
        [rsyncPath ?h sourcePath, rsyncPath ?h destinationPath] \<and>
      EnsureDir (parse_dir ?h destinationPath) \<in> set ?before"
    by blast
  from inst deps rel never_fails s d mem
  have "subseq
        (EnsureDir (parse_dir ?h ''/proj/.garden/build/web/vendor/lib'') #
         (if fails ?h (EnsureDir (parse_dir ?h ''/proj/.garden/build/web/vendor/lib'')) then []
          else [Debug (logMsg ?h example_buildDir
                  (rsyncPath ?h ''/proj/.garden/build/lib/dist'')
                  (rsyncPath ?h ''/proj/.garden/build/web/vendor/lib'') False),
                Execa ''rsync'' (syncOpts example_buildDir False @
                  [rsyncPath ?h ''/proj/.garden/build/lib/dist'',
                   rsyncPath ?h ''/proj/.garden/build/web/vendor/lib''])]))
        ?ops"
    by blast
  then have third: "subseq [EnsureDir ''/proj/.garden/build/web/vendor'', ?D1,
      Execa ''rsync'' ?a1] ?ops"
    by (simp only: parent msg args never_fails if_False)
  from inst never_fails
  have "orders (syncFromSrc ?h example_buildDir example_module) =
        {EnsureDir (resolve ?h (buildDirPath example_buildDir) (name example_module)) #
         EnsureDir (parse_dir ?h
           (resolve ?h (buildDirPath example_buildDir) (name example_module))) #
         (if fails ?h (EnsureDir (parse_dir ?h
               (resolve ?h (buildDirPath example_buildDir) (name example_module))))
          then []
          else [Debug (logMsg ?h example_buildDir
                  (rsyncPath ?h (resolve ?h (projectRoot example_buildDir)
                     (path example_module) @ sep ?h))
                  (rsyncPath ?h (resolve ?h (buildDirPath example_buildDir)
                     (name example_module))) True),
                Execa ''rsync'' (syncOpts example_buildDir True @
                  [rsyncPath ?h (resolve ?h (projectRoot example_buildDir)
                     (path example_module) @ sep ?h),
                   rsyncPath ?h (resolve ?h (buildDirPath example_buildDir)
                     (name example_module))])])}"
    by blast
  then have src: "orders (syncFromSrc ?h example_buildDir example_module) =
     {[EnsureDir ''/proj/.garden/build/web'', EnsureDir ''/proj/.garden/build'',
       Debug ''Syncing from services/web to .garden/build/web (with delete)'',
       Execa ''rsync''
         [''-rptgo'', ''--exclude=/proj/.garden/build'', ''--delete'',
          ''/proj/services/web/'', ''/proj/.garden/build/web'']]}"
    by (simp only: bp bpd smsg sargs never_fails if_False)
  from mem first src third show ?thesis by simp
qed

subsection \<open>Looking up the files after an operation\<close>

lemma stat_append:
  "stat (xs @ ys) p = (case stat xs p of None \<Rightarrow> stat ys p | Some n \<Rightarrow> Some n)"
  unfolding stat_def by (simp add: map_add_def)

lemma stat_filter_keys:
  "stat (filter (\<lambda>(p, n). Q p) files) p = (if Q p then stat files p else None)"
  unfolding stat_def by (induction files) auto

lemma stat_missing_dirs:
  "stat (missing_dirs d files) p =
     (if prefix p d \<and> stat files p = None then Some Directory else None)"
proof -
  have "map_of (map (\<lambda>p. (p, Directory)) xs) p = (if p \<in> set xs then Some Directory else None)"
    for xs :: "string list list"
    by (induction xs) auto
  then show ?thesis by (simp add: missing_dirs_def stat_def in_set_prefixes)
qed

lemma stat_ensureDir_fs:
  "stat (ensureDir_fs d files) p =
     (if prefix p d \<and> stat files p = None then Some Directory else stat files p)"
  by (simp add: ensureDir_fs_def stat_append stat_missing_dirs)

lemma stat_emptyDir_fs:
  "stat (emptyDir_fs d files) p =
     (if strict_prefix d p then None
      else if prefix p d \<and> stat files p = None then Some Directory
      else stat files p)"
  by (auto simp: emptyDir_fs_def stat_append stat_missing_dirs stat_filter_keys
      strict_prefix_def dest: prefix_order.antisym)


lemma stat_transferred_elsewhere:
  "\<not> strict_prefix dst p \<Longrightarrow> stat (transferred pats src dst files) p = None"
proof -
  assume n: "\<not> strict_prefix dst p"
  have "p \<notin> fst ` set (transferred pats src dst files)"
  proof
    assume "p \<in> fst ` set (transferred pats src dst files)"
    then obtain q where "strict_prefix src q" "p = dst @ drop (length src) q"
      by (auto simp: transferred_def)
    then have "strict_prefix dst p" by (auto simp: strict_prefix_def prefix_def)
    with n show False ..
  qed
  then show ?thesis by (simp add: stat_def map_of_eq_None_iff)
qed


lemma stat_rsync_contents_elsewhere:
  assumes "\<not> prefix dst p"
  shows "stat (rsync_contents pats delete src dst files) p = stat files p"
proof -
  from assms have ne: "p \<noteq> dst" and sp: "\<not> strict_prefix dst p"
    by (auto simp: strict_prefix_def)
  from ne have "stat (rsync_contents pats delete src dst files) p =
        stat (transferred pats src dst files @
              filter (\<lambda>(p, n). strict_prefix dst p \<longrightarrow>
                        \<not> delete \<or> protected pats dst files p) files) p"
    by (simp add: rsync_contents_def stat_def)
  with sp show ?thesis
    by (simp add: stat_append stat_transferred_elsewhere stat_filter_keys)
qed



subsection \<open>Source staging runs rsync with \<open>--delete\<close>\<close>





subsection \<open>The exclude option and a module at the project root\<close>

text \<open>Every process started by \<open>syncFromSrc\<close> or \<open>syncDependencyProducts\<close> is \<open>rsync\<close>, and
  its first two arguments are \<open>-rptgo\<close> and \<open>--exclude=<buildDirPath>\<close>.\<close>

lemma every_rsync_has_exclude_option:
  assumes "ops = issued (syncFromSrc h this m) \<or> ops = issued (syncDependencyProducts h this m)"
    and "Execa cmd args \<in> set ops"
  shows "cmd = ''rsync'' \<and> take 2 args = [''-rptgo'', ''--exclude='' @ buildDirPath this]"
  using assms(1)
proof
  assume "ops = issued (syncFromSrc h this m)"
  with assms(2) show ?thesis
    by (auto simp: issued_syncFromSrc syncOpts_def split: if_splits dest!: sync_Execa)
next
  assume "ops = issued (syncDependencyProducts h this m)"
  with assms(2) have "Execa cmd args \<in> set (issued (syncDependencyProducts h this m))" by simp
  then show ?thesis
    by (auto simp: syncOpts_def dest!: syncDependencyProducts_op_origin sync_Execa)
qed

text \<open>
  Claim C9 does not hold of the code. The comment at line 129 says that the option is
  there for modules whose directory is the project's, so that the build directory is not
  copied into the module's build directory. For the module \<open>root\<close>, whose path is the
  project directory \<open>/proj\<close>, \<open>syncFromSrc\<close> starts
  \<open>rsync -rptgo --exclude=/proj/.garden/build --delete /proj/ /proj/.garden/build/root\<close>.
  The pattern starts with a separator, so rsync reads it from the root of the transfer,
  \<open>/proj/\<close>: it names \<open>/proj/proj/.garden/build\<close>, which does not exist. The build
  directory \<open>/proj/.garden/build\<close> is transferred: the file \<open>dist.js\<close> of the build
  directory of \<open>lib\<close> is afterwards in the build directory of \<open>root\<close>.
\<close>

theorem build_directory_copied_into_build_root:
  "path root_module = ''.'' \<and>
   snd (syncFromSrc (example_host never) example_buildDir root_module) = Inr () \<and>
   issued (syncFromSrc (example_host never) example_buildDir root_module) =
     [EnsureDir ''/proj/.garden/build/root'', EnsureDir ''/proj/.garden/build'',
      Debug ''Syncing from  to .garden/build/root (with delete)'',
      Execa ''rsync''
        [''-rptgo'', ''--exclude=/proj/.garden/build'', ''--delete'', ''/proj/'',
         ''/proj/.garden/build/root'']] \<and>
   stat example_tree [''proj'', ''.garden'', ''build'', ''lib'', ''dist.js''] =
     Some (File ''lib'') \<and>
   stat example_tree
     [''proj'', ''.garden'', ''build'', ''root'', ''.garden'', ''build'', ''lib'', ''dist.js''] =
     None \<and>
   stat_after ''/home/dev''
     (issued (syncFromSrc (example_host never) example_buildDir root_module)) example_tree
     [''proj'', ''.garden'', ''build'', ''root'', ''.garden'', ''build'', ''lib'', ''dist.js''] =
     Some (Some (File ''lib''))"
proof (intro conjI)
  show "path root_module = ''.''" by (simp add: root_module_def)
  show "snd (syncFromSrc (example_host never) example_buildDir root_module) = Inr ()"
    by code_simp
  show "issued (syncFromSrc (example_host never) example_buildDir root_module) =
     [EnsureDir ''/proj/.garden/build/root'', EnsureDir ''/proj/.garden/build'',
      Debug ''Syncing from  to .garden/build/root (with delete)'',
      Execa ''rsync''
        [''-rptgo'', ''--exclude=/proj/.garden/build'', ''--delete'', ''/proj/'',
         ''/proj/.garden/build/root'']]"
    by code_simp
  show "stat example_tree [''proj'', ''.garden'', ''build'', ''lib'', ''dist.js''] =
     Some (File ''lib'')"
    by code_simp
  show "stat example_tree
     [''proj'', ''.garden'', ''build'', ''root'', ''.garden'', ''build'', ''lib'', ''dist.js''] =
     None"
    by code_simp
  show "stat_after ''/home/dev''
     (issued (syncFromSrc (example_host never) example_buildDir root_module)) example_tree
     [''proj'', ''.garden'', ''build'', ''root'', ''.garden'', ''build'', ''lib'', ''dist.js''] =
     Some (Some (File ''lib''))"
    by code_simp
qed


subsection \<open>Cygwin paths on win32 only\<close>

text \<open>
  Claim C8. The process that \<open>sync\<close> starts is \<open>rsync\<close> with the options \<open>syncOpts\<close>,
  which do not depend on the host, followed by the source and the destination path: both
  translated by \<open>toCygwinPath\<close> when the platform is \<open>win32\<close>, both as they were given on
  any other platform; on every platform a trailing \<open>/*\<close> loses its \<open>*\<close>. The process is
  started whenever \<open>ensureDir\<close> of the destination's parent directory succeeds.
\<close>

theorem sync_translates_paths_on_win32_only:
  "(Execa cmd args \<in> set (issued (sync h this sourcePath destinationPath withDelete)) \<longrightarrow>
      cmd = ''rsync'' \<and>
      args = syncOpts this withDelete @
        (if platform h = ''win32''
         then [stripWildcard (toCygwinPath h sourcePath),
               stripWildcard (toCygwinPath h destinationPath)]
         else [stripWildcard sourcePath, stripWildcard destinationPath])) \<and>
   (\<not> fails h (EnsureDir (parse_dir h destinationPath)) \<longrightarrow>
      Execa ''rsync'' (syncOpts this withDelete @
        (if platform h = ''win32''
         then [stripWildcard (toCygwinPath h sourcePath),
               stripWildcard (toCygwinPath h destinationPath)]
         else [stripWildcard sourcePath, stripWildcard destinationPath]))
      \<in> set (issued (sync h this sourcePath destinationPath withDelete)))"
  by (auto simp: issued_sync rsyncPath_def split: if_splits)

text \<open>On the Linux example host, with a source path that ends in a wildcard.\<close>

theorem sync_translates_paths_on_win32_only_witness:
  "\<not> fails (example_host never)
       (EnsureDir (parse_dir (example_host never) ''/proj/.garden/build/web'')) \<and>
   platform (example_host never) \<noteq> ''win32'' \<and>
   Execa ''rsync'' (syncOpts example_buildDir True @
       [stripWildcard ''/proj/services/web/*'', stripWildcard ''/proj/.garden/build/web''])
     \<in> set (issued (sync (example_host never) example_buildDir
                 ''/proj/services/web/*'' ''/proj/.garden/build/web'' True)) \<and>
   stripWildcard ''/proj/services/web/*'' = ''/proj/services/web/''"
proof -
  have nf: "\<not> fails (example_host never)
       (EnsureDir (parse_dir (example_host never) ''/proj/.garden/build/web''))"
    by (simp add: example_host_def posix_host_def never_def)
  have pl: "platform (example_host never) \<noteq> ''win32''"
    by (simp add: example_host_def posix_host_def)
  have sw: "stripWildcard ''/proj/services/web/*'' = ''/proj/services/web/''"
    by (simp add: stripWildcard_def endsWith_def)
  from sync_translates_paths_on_win32_only [of "''rsync''" "[]" "example_host never"
      example_buildDir "''/proj/services/web/*''" "''/proj/.garden/build/web''" True] nf pl sw
  show ?thesis by simp
qed


subsection \<open>Absolute paths in a copy spec\<close>

text \<open>
  Claim C1 as stated fails: with the single copy spec \<open>{source: dist, target: /etc/foo}\<close>
  the call rejects with the \<open>ConfigurationError\<close>, but \<open>buildPath\<close> has by then issued
  \<open>ensureDir\<close> for the build directory of the module and for that of the dependency.
\<close>

theorem absolute_target_performs_file_operations:
  "isAbsolute (example_host never) ''/etc/foo'' \<and>
   snd (syncDependencyProducts (example_host never) example_buildDir absolute_target_module) =
     Inl (ConfigurationError
        ''Target path in build dependency copy spec must be a relative path''
        \<lparr>source = ''dist'', target = ''/etc/foo''\<rparr>) \<and>
   issued (syncDependencyProducts (example_host never) example_buildDir absolute_target_module) =
     [EnsureDir ''/proj/.garden/build/web'', EnsureDir ''/proj/.garden/build/lib''] \<and>
   issued (syncDependencyProducts (example_host never) example_buildDir absolute_target_module) \<noteq> []"
  by (simp add: example_absolute_target issued_def)
    (simp add: example_host_def posix_host_def posix_isAbsolute_def)

text \<open>
  Claim C1, amended. When a copy spec of a build dependency has an absolute source or
  target, \<open>syncDependencyProducts\<close> rejects; when no external operation fails, it rejects
  with a \<open>ConfigurationError\<close> for a copy spec with an absolute path. The check of that
  copy spec throws before \<open>sync\<close> is called for it, and every rsync call that
  \<open>syncDependencyProducts\<close> makes belongs to a copy spec whose source and target are both
  relative.
\<close>

theorem absolute_copy_spec_rejected:
  assumes ds: "dependencies (build m) = Some ds" and d: "d \<in> set ds"
    and cs: "copy d = Some cs" and c: "c \<in> set cs"
    and abs: "isAbsolute h (source c) \<or> isAbsolute h (target c)"
  shows "(\<exists>e. snd (syncDependencyProducts h this m) = Inl e) \<and>
     ((\<forall>op. \<not> fails h op) \<longrightarrow>
        (\<exists>msg c'. snd (syncDependencyProducts h this m) = Inl (ConfigurationError msg c') \<and>
           (isAbsolute h (source c') \<or> isAbsolute h (target c')))) \<and>
     (\<forall>sourceBuildPath buildPath'. \<exists>msg.
        copyMapper h this sourceBuildPath buildPath' c = Inl (ConfigurationError msg c)) \<and>
     (\<forall>cmd args. Execa cmd args \<in> set (issued (syncDependencyProducts h this m)) \<longrightarrow>
        (\<exists>d' cs' c'. d' \<in> set ds \<and> copy d' = Some cs' \<and> c' \<in> set cs' \<and>
           \<not> isAbsolute h (source c') \<and> \<not> isAbsolute h (target c') \<and>
           cmd = ''rsync'' \<and>
           args = syncOpts this False @
             [rsyncPath h (join h (resolve h (buildDirPath this)
                 (getModuleKey h (dep_name d') (plugin d'))) (source c')),
              rsyncPath h (join h (resolve h (buildDirPath this) (name m)) (target c'))]))"
proof (intro conjI allI impI)
  show rej: "\<exists>e. snd (syncDependencyProducts h this m) = Inl e"
  proof (cases "snd (syncDependencyProducts h this m)")
    case (Inr u)
    from syncDependencyProducts_fulfilled [OF Inr ds d cs c] abs show ?thesis by blast
  qed simp
  show "\<exists>msg c'. snd (syncDependencyProducts h this m) = Inl (ConfigurationError msg c') \<and>
      (isAbsolute h (source c') \<or> isAbsolute h (target c'))" if "\<forall>op. \<not> fails h op"
  proof -
    from rej obtain e where e: "snd (syncDependencyProducts h this m) = Inl e" ..
    from syncDependencyProducts_rejected [OF e] that e show ?thesis by blast
  qed
  show "\<exists>msg. copyMapper h this sourceBuildPath buildPath' c = Inl (ConfigurationError msg c)"
    for sourceBuildPath buildPath'
    using abs by (auto simp: copyMapper_def)
  show "\<exists>d' cs' c'. d' \<in> set ds \<and> copy d' = Some cs' \<and> c' \<in> set cs' \<and>
           \<not> isAbsolute h (source c') \<and> \<not> isAbsolute h (target c') \<and>
           cmd = ''rsync'' \<and>
           args = syncOpts this False @
             [rsyncPath h (join h (resolve h (buildDirPath this)
                 (getModuleKey h (dep_name d') (plugin d'))) (source c')),
              rsyncPath h (join h (resolve h (buildDirPath this) (name m)) (target c'))]"
    if "Execa cmd args \<in> set (issued (syncDependencyProducts h this m))" for cmd args
    using syncDependencyProducts_op_origin [OF that] ds
    by (auto dest!: sync_Execa)
qed

text \<open>On the example with a relative copy spec before the absolute one: the first is
  synced, the call rejects with the \<open>ConfigurationError\<close>.\<close>

theorem absolute_copy_spec_rejected_witness:
  "dependencies (build mixed_module) =
     Some [\<lparr>dep_name = ''lib'', plugin = None,
            copy = Some [\<lparr>source = ''dist'', target = ''vendor/lib''\<rparr>,
                         \<lparr>source = ''dist'', target = ''/etc/foo''\<rparr>]\<rparr>] \<and>
   isAbsolute (example_host never) (target \<lparr>source = ''dist'', target = ''/etc/foo''\<rparr>) \<and>
   (\<forall>op. \<not> fails (example_host never) op) \<and>
   Execa ''rsync''
     [''-rptgo'', ''--exclude=/proj/.garden/build'',
      ''/proj/.garden/build/lib/dist'', ''/proj/.garden/build/web/vendor/lib'']
     \<in> set (issued (syncDependencyProducts (example_host never) example_buildDir mixed_module)) \<and>
   (\<exists>msg c'. snd (syncDependencyProducts (example_host never) example_buildDir mixed_module) =
       Inl (ConfigurationError msg c'))"
proof -
  let ?c = "\<lparr>source = ''dist'', target = ''/etc/foo''\<rparr>"
  let ?cs = "[\<lparr>source = ''dist'', target = ''vendor/lib''\<rparr>, ?c]"
  let ?d = "\<lparr>dep_name = ''lib'', plugin = None, copy = Some ?cs\<rparr>"
  have ds: "dependencies (build mixed_module) = Some [?d]" by (simp add: mixed_module_def)
  have d: "?d \<in> set [?d]" by simp
  have cs: "copy ?d = Some ?cs" by simp
  have c: "?c \<in> set ?cs" by simp
  have abs: "isAbsolute (example_host never) (source ?c) \<or>
             isAbsolute (example_host never) (target ?c)"
    by (simp add: example_host_def posix_host_def posix_isAbsolute_def)
  have tgt: "isAbsolute (example_host never) (target ?c)"
    by (simp add: example_host_def posix_host_def posix_isAbsolute_def)
  have mem: "Execa ''rsync''
     [''-rptgo'', ''--exclude=/proj/.garden/build'',
      ''/proj/.garden/build/lib/dist'', ''/proj/.garden/build/web/vendor/lib'']
     \<in> set (issued (syncDependencyProducts (example_host never) example_buildDir mixed_module))"
    by (simp add: example_mixed issued_def)
  from absolute_copy_spec_rejected [OF ds d cs c abs, of example_buildDir] never_fails
  have "\<exists>msg c'. snd (syncDependencyProducts (example_host never) example_buildDir mixed_module) =
       Inl (ConfigurationError msg c')" by blast
  with ds tgt mem never_fails show ?thesis by blast
qed


subsection \<open>Failures of rsync\<close>

text \<open>
  Claim C5 as stated fails. The dependency \<open>lib\<close> has a relative copy spec followed by
  one with an absolute target, and every rsync call fails. The rsync of the first copy
  is started, after the mapper has thrown the \<open>ConfigurationError\<close> for the second: the
  promise of \<open>syncDependencyProducts\<close> is rejected with the \<open>ConfigurationError\<close>, at
  whatever time rsync fails, and the failure of rsync is not reported.
\<close>

theorem rsync_failure_lost_after_configuration_error:
  "Execa ''rsync''
     [''-rptgo'', ''--exclude=/proj/.garden/build'',
      ''/proj/.garden/build/lib/dist'', ''/proj/.garden/build/web/vendor/lib'']
     \<in> set (issued (syncDependencyProducts (example_host rsync_fails) example_buildDir
                  mixed_module)) \<and>
   fails (example_host rsync_fails)
     (Execa ''rsync''
       [''-rptgo'', ''--exclude=/proj/.garden/build'',
        ''/proj/.garden/build/lib/dist'', ''/proj/.garden/build/web/vendor/lib'']) \<and>
   snd (syncDependencyProducts (example_host rsync_fails) example_buildDir mixed_module) =
     Inl (ConfigurationError
        ''Target path in build dependency copy spec must be a relative path''
        \<lparr>source = ''dist'', target = ''/etc/foo''\<rparr>) \<and>
   snd (syncDependencyProducts (example_host rsync_fails) example_buildDir mixed_module) \<noteq>
     Inl (OperationFailed (Execa ''rsync''
       [''-rptgo'', ''--exclude=/proj/.garden/build'',
        ''/proj/.garden/build/lib/dist'', ''/proj/.garden/build/web/vendor/lib'']))"
  by (simp add: example_mixed_rsync_fails issued_def)
    (simp add: example_host_def posix_host_def rsync_fails_def)

text \<open>
  Claim C5, amended. When an rsync call fails, \<open>syncFromSrc\<close> rejects with that failure.
  \<open>syncDependencyProducts\<close> rejects as well, whatever the times of the rejections: with
  the failure of one of the operations it issued, or with a \<open>ConfigurationError\<close>; with
  that very failure when no other operation fails and no copy spec has an absolute path.
\<close>

theorem rsync_failure_rejects:
  assumes f: "fails h (Execa cmd args)"
  shows "(Execa cmd args \<in> set (issued (syncFromSrc h this m)) \<longrightarrow>
            snd (syncFromSrc h this m) = Inl (OperationFailed (Execa cmd args))) \<and>
         (Execa cmd args \<in> set (issued (syncDependencyProducts h this m)) \<longrightarrow>
            (\<exists>e. snd (syncDependencyProducts h this m) = Inl e \<and>
               ((\<exists>op. e = OperationFailed op \<and> fails h op \<and>
                   op \<in> set (issued (syncDependencyProducts h this m))) \<or>
                (\<exists>msg c. e = ConfigurationError msg c)))) \<and>
         (Execa cmd args \<in> set (issued (syncDependencyProducts h this m)) \<and>
          (\<forall>op \<in> set (issued (syncDependencyProducts h this m)).
             fails h op \<longrightarrow> op = Execa cmd args) \<and>
          (\<forall>ds d cs c. dependencies (build m) = Some ds \<and> d \<in> set ds \<and>
             copy d = Some cs \<and> c \<in> set cs \<longrightarrow>
             \<not> isAbsolute h (source c) \<and> \<not> isAbsolute h (target c)) \<longrightarrow>
            snd (syncDependencyProducts h this m) = Inl (OperationFailed (Execa cmd args)))"
proof -
  have src: "snd (syncFromSrc h this m) = Inl (OperationFailed (Execa cmd args))"
    if "Execa cmd args \<in> set (issued (syncFromSrc h this m))"
    using that f
    by (auto simp: issued_syncFromSrc snd_syncFromSrc issued_sync snd_sync split: if_splits)
  have rej: "\<exists>e. snd (syncDependencyProducts h this m) = Inl e"
    if mem: "Execa cmd args \<in> set (issued (syncDependencyProducts h this m))"
  proof (cases "snd (syncDependencyProducts h this m)")
    case (Inr u)
    from syncDependencyProducts_op_origin [OF mem] obtain ds d cs c
      where o: "dependencies (build m) = Some ds" "d \<in> set ds" "copy d = Some cs" "c \<in> set cs"
        and s: "Execa cmd args \<in> set (issued (sync h this
              (join h (resolve h (buildDirPath this) (getModuleKey h (dep_name d) (plugin d)))
                 (source c))
              (join h (resolve h (buildDirPath this) (name m)) (target c)) False))"
      by auto
    from s f have "snd (sync h this
              (join h (resolve h (buildDirPath this) (getModuleKey h (dep_name d) (plugin d)))
                 (source c))
              (join h (resolve h (buildDirPath this) (name m)) (target c)) False) =
           Inl (OperationFailed (Execa cmd args))"
      by (auto simp: issued_sync snd_sync split: if_splits)
    with syncDependencyProducts_fulfilled [OF Inr o] show ?thesis by simp
  qed simp
  have dep: "\<exists>e. snd (syncDependencyProducts h this m) = Inl e \<and>
               ((\<exists>op. e = OperationFailed op \<and> fails h op \<and>
                   op \<in> set (issued (syncDependencyProducts h this m))) \<or>
                (\<exists>msg c. e = ConfigurationError msg c))"
    if mem: "Execa cmd args \<in> set (issued (syncDependencyProducts h this m))"
  proof -
    from rej [OF mem] obtain e where e: "snd (syncDependencyProducts h this m) = Inl e" ..
    from syncDependencyProducts_rejected [OF e] e show ?thesis by blast
  qed
  have only: "snd (syncDependencyProducts h this m) = Inl (OperationFailed (Execa cmd args))"
    if mem: "Execa cmd args \<in> set (issued (syncDependencyProducts h this m))"
      and one: "\<forall>op \<in> set (issued (syncDependencyProducts h this m)).
             fails h op \<longrightarrow> op = Execa cmd args"
      and rel: "\<forall>ds d cs c. dependencies (build m) = Some ds \<and> d \<in> set ds \<and>
             copy d = Some cs \<and> c \<in> set cs \<longrightarrow>
             \<not> isAbsolute h (source c) \<and> \<not> isAbsolute h (target c)"
  proof -
    from rej [OF mem] obtain e where e: "snd (syncDependencyProducts h this m) = Inl e" ..
    from syncDependencyProducts_rejected [OF e] rel
    obtain op where "e = OperationFailed op" "fails h op"
      "op \<in> set (issued (syncDependencyProducts h this m))" by blast
    with one e show ?thesis by auto
  qed
  from src dep only show ?thesis by blast
qed

text \<open>On the examples: a failing rsync in \<open>syncFromSrc\<close>, and a single failing rsync in
  \<open>syncDependencyProducts\<close>.\<close>

theorem rsync_failure_rejects_witness:
  "fails (example_host rsync_fails)
     (Execa ''rsync''
       [''-rptgo'', ''--exclude=/proj/.garden/build'', ''--delete'',
        ''/proj/services/web/'', ''/proj/.garden/build/web'']) \<and>
   Execa ''rsync''
       [''-rptgo'', ''--exclude=/proj/.garden/build'', ''--delete'',
        ''/proj/services/web/'', ''/proj/.garden/build/web'']
     \<in> set (issued (syncFromSrc (example_host rsync_fails) example_buildDir example_module)) \<and>
   snd (syncFromSrc (example_host rsync_fails) example_buildDir example_module) =
     Inl (OperationFailed (Execa ''rsync''
       [''-rptgo'', ''--exclude=/proj/.garden/build'', ''--delete'',
        ''/proj/services/web/'', ''/proj/.garden/build/web''])) \<and>
   snd (syncDependencyProducts
          (example_host (only_fails (Execa ''rsync''
             [''-rptgo'', ''--exclude=/proj/.garden/build'',
              ''/proj/.garden/build/lib/README.md'', ''/proj/.garden/build/web/docs''])))
          example_buildDir example_module) =
     Inl (OperationFailed (Execa ''rsync''
       [''-rptgo'', ''--exclude=/proj/.garden/build'',
        ''/proj/.garden/build/lib/README.md'', ''/proj/.garden/build/web/docs'']))"
proof -
  let ?op = "Execa ''rsync''
       [''-rptgo'', ''--exclude=/proj/.garden/build'', ''--delete'',
        ''/proj/services/web/'', ''/proj/.garden/build/web'']"
  have f: "fails (example_host rsync_fails) ?op"
    by (simp add: example_host_def posix_host_def rsync_fails_def)
  have mem: "?op \<in> set (issued (syncFromSrc (example_host rsync_fails) example_buildDir
      example_module))"
    by code_simp
  let ?op2 = "Execa ''rsync''
       [''-rptgo'', ''--exclude=/proj/.garden/build'',
        ''/proj/.garden/build/lib/README.md'', ''/proj/.garden/build/web/docs'']"
  let ?h2 = "example_host (only_fails ?op2)"
  have f2: "fails ?h2 ?op2"
    by (simp add: example_host_def posix_host_def only_fails_def)
  have mem2: "?op2 \<in> set (issued (syncDependencyProducts ?h2 example_buildDir example_module))"
    by code_simp
  have one: "\<forall>op \<in> set (issued (syncDependencyProducts ?h2 example_buildDir example_module)).
      fails ?h2 op \<longrightarrow> op = ?op2"
    by (simp add: example_host_def posix_host_def only_fails_def)
  have rel: "\<forall>ds d cs c. dependencies (build example_module) = Some ds \<and> d \<in> set ds \<and>
             copy d = Some cs \<and> c \<in> set cs \<longrightarrow>
             \<not> isAbsolute ?h2 (source c) \<and> \<not> isAbsolute ?h2 (target c)"
    by (auto simp: example_module_def example_host_def posix_host_def posix_isAbsolute_def)
  from rsync_failure_rejects [OF f, of example_buildDir example_module]
    rsync_failure_rejects [OF f2, of example_buildDir example_module] mem f mem2 one rel
  show ?thesis by blast
qed


subsection \<open>Dependencies without a copy list\<close>

text \<open>
  Claim C10. For a build dependency without a copy list, and for a zipped entry one of
  whose halves is missing, the mapper issues no operation, checks no path and fulfils.
  Such a dependency can be removed from the module without changing the operations or
  the settlement of \<open>syncDependencyProducts\<close>.
\<close>

theorem dependency_without_copy_is_skipped:
  assumes "copy d = None"
  shows "dependencyMapper h this buildPath' (Some sourceModule, Some d) = (([], Nothing), Inr ()) \<and>
         dependencyMapper h this buildPath' (None, depConfig) = (([], Nothing), Inr ()) \<and>
         dependencyMapper h this buildPath' (sourceModule', None) = (([], Nothing), Inr ()) \<and>
         syncDependencyProducts h this (m\<lparr>build := \<lparr>dependencies = Some (ds @ d # ds')\<rparr>\<rparr>) =
         syncDependencyProducts h this (m\<lparr>build := \<lparr>dependencies = Some (ds @ ds')\<rparr>\<rparr>)"
proof (intro conjI)
  show "dependencyMapper h this buildPath' (Some sourceModule, Some d) = (([], Nothing), Inr ())"
    using assms by (simp add: dependencyMapper_def resolved_def)
  show "dependencyMapper h this buildPath' (None, depConfig) = (([], Nothing), Inr ())"
    by (simp add: dependencyMapper_def resolved_def)
  show "dependencyMapper h this buildPath' (sourceModule', None) = (([], Nothing), Inr ())"
    by (simp add: dependencyMapper_def resolved_def split: option.splits)
  have skip: "await (bluebirdMap h (map (\<lambda>x. (Some x, Some x)) ds @ (Some d, Some d) #
                  map (\<lambda>x. (Some x, Some x)) ds')
               (\<lambda>entry. Inr (dependencyMapper h this bp entry))) (\<lambda>_. resolved ()) =
        await (bluebirdMap h (map (\<lambda>x. (Some x, Some x)) ds @ map (\<lambda>x. (Some x, Some x)) ds')
               (\<lambda>entry. Inr (dependencyMapper h this bp entry))) (\<lambda>_. resolved ())" for bp
    by (rule bluebirdMap_skip [where v = "()"])
      (simp add: assms dependencyMapper_def resolved_def)
  show "syncDependencyProducts h this (m\<lparr>build := \<lparr>dependencies = Some (ds @ d # ds')\<rparr>\<rparr>) =
        syncDependencyProducts h this (m\<lparr>build := \<lparr>dependencies = Some (ds @ ds')\<rparr>\<rparr>)"
    by (simp add: syncDependencyProducts_def Let_def zip_lodash_same skip)
qed

text \<open>On the example: the dependency \<open>base\<close> has no copy list.\<close>

theorem dependency_without_copy_is_skipped_witness:
  "copy \<lparr>dep_name = ''base'', plugin = None, copy = None\<rparr> = None \<and>
   syncDependencyProducts (example_host never) example_buildDir example_module =
   syncDependencyProducts (example_host never) example_buildDir
     (example_module\<lparr>build := \<lparr>dependencies = Some
        [\<lparr>dep_name = ''lib'', plugin = None,
          copy = Some [\<lparr>source = ''dist'', target = ''vendor/lib''\<rparr>,
                       \<lparr>source = ''README.md'', target = ''docs''\<rparr>]\<rparr>]\<rparr>\<rparr>)"
proof -
  let ?lib = "\<lparr>dep_name = ''lib'', plugin = None,
          copy = Some [\<lparr>source = ''dist'', target = ''vendor/lib''\<rparr>,
                       \<lparr>source = ''README.md'', target = ''docs''\<rparr>]\<rparr>"
  let ?base = "\<lparr>dep_name = ''base'', plugin = None, copy = None\<rparr>"
  have n: "copy ?base = None" by simp
  have m: "example_module\<lparr>build := \<lparr>dependencies = Some ([?lib] @ ?base # [])\<rparr>\<rparr> = example_module"
    by (simp add: example_module_def)
  from dependency_without_copy_is_skipped [OF n, where h = "example_host never"
      and this = example_buildDir and m = example_module and ds = "[?lib]" and ds' = "[]"] m n
  show ?thesis by simp
qed


subsection \<open>Paths of a POSIX host\<close>

lemma single_segment_hd:
  assumes "single_segment s"
  shows "s \<noteq> [] \<and> hd s \<noteq> CHR ''/'' \<and> last s \<noteq> CHR ''/''"
proof -
  from assms have ne: "s \<noteq> []" and ns: "CHR ''/'' \<notin> set s"
    by (simp_all add: single_segment_def)
  from ne have "hd s \<in> set s" "last s \<in> set s" by simp_all
  with ne ns show ?thesis by metis
qed

lemma split_slash_not_Nil: "split_slash s \<noteq> []"
  by (induction s) (auto split: list.splits)

lemma split_slash_append:
  "split_slash (a @ CHR ''/'' # b) = split_slash a @ split_slash b"
proof (induction a)
  case Nil
  show ?case by simp
next
  case (Cons c a)
  then show ?case
    by (cases "split_slash a") (auto simp: split_slash_not_Nil)
qed

lemma split_slash_segment: "CHR ''/'' \<notin> set n \<Longrightarrow> split_slash n = [n]"
  by (induction n) auto

lemma normalize_step_empty: "normalize_step al res [] = res"
  by (simp add: normalize_step_def)

lemma normalize_step_segment:
  "single_segment n \<Longrightarrow> normalize_step al res n = res @ [n]"
  by (simp add: normalize_step_def single_segment_def)

text \<open>After a path that is empty or ends in a separator, a further segment is appended
  to the normalized segments.\<close>

lemma normalize_segments_snoc:
  assumes n: "single_segment n" and q: "q = [] \<or> (\<exists>q'. q = q' @ ''/'')"
  shows "normalize_segments al (q @ n @ ''/'') = normalize_segments al q @ [n]"
proof -
  from n have nn: "CHR ''/'' \<notin> set n" by (simp add: single_segment_def)
  have sn: "split_slash (n @ ''/'') = [n, []]"
    using split_slash_append [of n "[]"] nn by (simp add: split_slash_segment)
  from q show ?thesis
  proof
    assume "q = []"
    with sn n show ?thesis
      by (simp add: normalize_segments_def normalize_step_segment normalize_step_empty)
  next
    assume "\<exists>q'. q = q' @ ''/''"
    then obtain q' where q': "q = q' @ ''/''" ..
    have "split_slash (q @ n @ ''/'') = split_slash q' @ [n, []]"
      using split_slash_append [of q' "n @ ''/''"] sn by (simp add: q')
    moreover have "split_slash q = split_slash q' @ [[]]"
      using split_slash_append [of q' "[]"] by (simp add: q')
    ultimately show ?thesis using n
      by (simp add: normalize_segments_def normalize_step_segment normalize_step_empty)
  qed
qed

lemma normalize_segments_snoc_plain:
  assumes n: "single_segment n" and q: "q = [] \<or> (\<exists>q'. q = q' @ ''/'')"
  shows "normalize_segments al (q @ n) = normalize_segments al q @ [n]"
proof -
  from n have nn: "CHR ''/'' \<notin> set n" by (simp add: single_segment_def)
  from q show ?thesis
  proof
    assume "q = []"
    with nn n show ?thesis
      by (simp add: normalize_segments_def split_slash_segment normalize_step_segment
          normalize_step_empty)
  next
    assume "\<exists>q'. q = q' @ ''/''"
    then obtain q' where q': "q = q' @ ''/''" ..
    have "split_slash (q @ n) = split_slash q' @ [n]"
      using split_slash_append [of q' n] nn by (simp add: q' split_slash_segment)
    moreover have "split_slash q = split_slash q' @ [[]]"
      using split_slash_append [of q' "[]"] by (simp add: q')
    ultimately show ?thesis using n
      by (simp add: normalize_segments_def normalize_step_segment normalize_step_empty)
  qed
qed

lemma resolve_collect_absolute: "resolve_collect ps (q, True) = (q, True)"
  by (cases ps) simp_all

lemma resolve_collect_suffix:
  "resolve_collect ps (q, False) =
     (fst (resolve_collect ps ([], False)) @ q, snd (resolve_collect ps ([], False)))"
proof (induction ps arbitrary: q)
  case Nil
  show ?case by simp
next
  case (Cons p ps)
  show ?case
  proof (cases "p = []")
    case True
    then have "resolve_collect (p # ps) (q, False) = resolve_collect ps (q, False)"
      and "resolve_collect (p # ps) ([], False) = resolve_collect ps ([], False)"
      by simp_all
    then show ?thesis unfolding \<open>resolve_collect (p # ps) (q, False) = _\<close>
        \<open>resolve_collect (p # ps) ([], False) = _\<close> by (simp only: Cons [of q])
  next
    case False
    show ?thesis
    proof (cases "hd p = CHR ''/''")
      case True
      with False show ?thesis by (simp add: resolve_collect_absolute)
    next
      case nab: False
      have a: "resolve_collect (p # ps) (q, False) = resolve_collect ps (p @ ''/'' @ q, False)"
        using False nab by simp
      have b: "resolve_collect (p # ps) ([], False) = resolve_collect ps (p @ ''/'', False)"
        using False nab by simp
      have c: "resolve_collect ps (p @ ''/'' @ q, False) =
          (fst (resolve_collect ps ([], False)) @ p @ ''/'' @ q,
           snd (resolve_collect ps ([], False)))"
        by (rule Cons)
      have d: "resolve_collect ps (p @ ''/'', False) =
          (fst (resolve_collect ps ([], False)) @ p @ ''/'',
           snd (resolve_collect ps ([], False)))"
        by (rule Cons)
      show ?thesis unfolding a b c d by simp
    qed
  qed
qed

lemma resolve_collect_ends_in_slash:
  "q = [] \<or> (\<exists>q'. q = q' @ ''/'') \<Longrightarrow>
     fst (resolve_collect ps (q, b)) = [] \<or> (\<exists>r. fst (resolve_collect ps (q, b)) = r @ ''/'')"
proof (induction ps arbitrary: q b)
  case Nil
  then show ?case by simp
next
  case (Cons p ps)
  show ?case
  proof (cases b)
    case True
    with Cons.prems show ?thesis by (simp add: resolve_collect_absolute)
  next
    case False
    show ?thesis
    proof (cases "p = []")
      case True
      with False Cons show ?thesis by simp
    next
      case ne: False
      from Cons.prems have "\<exists>q'. p @ ''/'' @ q = q' @ ''/''"
      proof
        assume "q = []" then show ?thesis by simp
      next
        assume "\<exists>q'. q = q' @ ''/''"
        then obtain q' where "q = q' @ ''/''" ..
        then have "p @ ''/'' @ q = (p @ ''/'' @ q') @ ''/''" by simp
        then show ?thesis by blast
      qed
      with Cons.IH [of "p @ ''/'' @ q" "hd p = CHR ''/''"] False ne show ?thesis by simp
    qed
  qed
qed

text \<open>Resolving a single segment against a directory: the segments of the resolved
  directory, then the segment.\<close>

lemma resolve_segments_child:
  assumes n: "single_segment n"
  shows "resolve_segments cwd [dir, n] =
           (fst (resolve_segments cwd [dir]), snd (resolve_segments cwd [dir]) @ [n])"
proof -
  from single_segment_hd [OF n] have ne: "n \<noteq> []" and hd: "hd n \<noteq> CHR ''/''"
    by simp_all
  obtain R a where R: "resolve_collect [dir, cwd] ([], False) = (R, a)"
    by (cases "resolve_collect [dir, cwd] ([], False)")
  from resolve_collect_ends_in_slash [of "[]" "[dir, cwd]" False] R
  have Rs: "R = [] \<or> (\<exists>r. R = r @ ''/'')" by simp
  have "resolve_collect (rev [dir, n] @ [cwd]) ([], False) =
        resolve_collect [dir, cwd] (n @ ''/'', False)"
    using ne hd by simp
  also have "\<dots> = (R @ n @ ''/'', a)"
    using resolve_collect_suffix [of "[dir, cwd]" "n @ ''/''"] R by simp
  finally have "resolve_segments cwd [dir, n] = (a, normalize_segments (\<not> a) (R @ n @ ''/''))"
    by (simp add: resolve_segments_def)
  moreover have "resolve_segments cwd [dir] = (a, normalize_segments (\<not> a) R)"
    using R by (simp add: resolve_segments_def)
  ultimately show ?thesis
    by (simp add: normalize_segments_snoc [OF n Rs])
qed

lemma join_slash_snoc:
  "join_slash (segs @ [n]) = (if segs = [] then n else join_slash segs @ ''/'' @ n)"
  by (induction segs rule: join_slash.induct) auto

lemma join_slash_snoc_inject:
  "join_slash (segs @ [n]) = join_slash (segs @ [n']) \<Longrightarrow> n = n'"
  by (simp add: join_slash_snoc split: if_splits)

lemma join_slash_snoc_not_Nil: "n \<noteq> [] \<Longrightarrow> join_slash (segs @ [n]) \<noteq> []"
  by (simp add: join_slash_snoc)

lemma posix_resolve_child_inject:
  assumes "single_segment n" "single_segment n'"
    and "posix_resolve cwd dir n = posix_resolve cwd dir n'"
  shows "n = n'"
proof -
  obtain a segs where r: "resolve_segments cwd [dir] = (a, segs)"
    by (cases "resolve_segments cwd [dir]")
  from assms(3) show ?thesis
    using resolve_segments_child [OF assms(1), of cwd dir]
      resolve_segments_child [OF assms(2), of cwd dir] r
    by (auto simp: posix_resolve_def posix_resolve_args_def
        dest: join_slash_snoc_inject split: if_splits)
qed

lemma normalize_segments_trailing_slash:
  "normalize_segments al (g @ ''/'') = normalize_segments al g"
  using split_slash_append [of g "[]"]
  by (simp add: normalize_segments_def normalize_step_empty)

text \<open>\<open>join(g, s)\<close> for a single segment \<open>s\<close>: a prefix that depends on \<open>g\<close> only and is
  empty or ends in a separator, then \<open>s\<close>.\<close>

lemma posix_join_child:
  "\<exists>P. (P = [] \<or> (\<exists>r. P = r @ ''/'')) \<and>
       (\<forall>s. single_segment s \<longrightarrow> posix_join g s = P @ s)"
proof (cases "g = []")
  case True
  have "posix_join g s = [] @ s" if s: "single_segment s" for s
  proof -
    from single_segment_hd [OF s] have sp: "s \<noteq> []" "hd s \<noteq> CHR ''/''" "last s \<noteq> CHR ''/''"
      by simp_all
    have "normalize_segments True ([] @ s) = normalize_segments True [] @ [s]"
      by (rule normalize_segments_snoc_plain [OF s]) simp
    then have "normalize_segments True s = [s]"
      by (simp add: normalize_segments_def normalize_step_empty)
    with True sp show ?thesis
      by (simp add: posix_join_def posix_normalize_def posix_isAbsolute_def Let_def
          normalizeString_def)
  qed
  then show ?thesis by blast
next
  case False
  define isAbs where "isAbs = (hd g = CHR ''/'')"
  define N where "N = normalize_segments (\<not> isAbs) g"
  define P where "P = (if isAbs then ''/'' else []) @ (if N = [] then [] else join_slash N @ ''/'')"
  have Pend: "P = [] \<or> (\<exists>r. P = r @ ''/'')"
  proof (cases "N = []")
    case True
    then show ?thesis by (auto simp: P_def)
  next
    case False
    then have "P = ((if isAbs then ''/'' else []) @ join_slash N) @ ''/''" by (simp add: P_def)
    then show ?thesis by blast
  qed
  have "posix_join g s = P @ s" if s: "single_segment s" for s
  proof -
    from single_segment_hd [OF s] have sp: "s \<noteq> []" "hd s \<noteq> CHR ''/''" "last s \<noteq> CHR ''/''"
      by simp_all
    have "normalize_segments (\<not> isAbs) ((g @ ''/'') @ s) =
          normalize_segments (\<not> isAbs) (g @ ''/'') @ [s]"
      by (rule normalize_segments_snoc_plain [OF s]) blast
    then have ns: "normalize_segments (\<not> isAbs) (g @ ''/'' @ s) = N @ [s]"
      by (simp add: N_def normalize_segments_trailing_slash)
    have j: "posix_join g s = posix_normalize (g @ ''/'' @ s)"
      using False sp by (simp add: posix_join_def)
    have ab: "posix_isAbsolute (g @ ''/'' @ s) = isAbs"
      using False by (simp add: posix_isAbsolute_def isAbs_def)
    have la: "last (g @ ''/'' @ s) \<noteq> CHR ''/''" using sp by simp
    show ?thesis
      unfolding j using ab la ns sp
      by (simp add: posix_normalize_def Let_def normalizeString_def join_slash_snoc P_def)
  qed
  with Pend show ?thesis by blast
qed

lemma fs_key_child:
  assumes P: "P = [] \<or> (\<exists>r. P = r @ ''/'')"
  shows "\<exists>K. \<forall>s. single_segment s \<longrightarrow> fs_key cwd (P @ s) = K @ [s]"
proof -
  define abs0 where "abs0 = (P \<noteq> [] \<and> hd P = CHR ''/'')"
  define Q where "Q = (if abs0 \<or> cwd = [] then P else cwd @ ''/'' @ P)"
  define a where "a = (abs0 \<or> (cwd \<noteq> [] \<and> hd cwd = CHR ''/''))"
  have Qend: "Q = [] \<or> (\<exists>r. Q = r @ ''/'')"
  proof (cases "abs0 \<or> cwd = []")
    case True
    with P show ?thesis by (simp add: Q_def)
  next
    case False
    from P have "\<exists>r. cwd @ ''/'' @ P = r @ ''/''"
    proof
      assume "P = []" then show ?thesis by simp
    next
      assume "\<exists>r. P = r @ ''/''"
      then obtain r where "P = r @ ''/''" ..
      then have "cwd @ ''/'' @ P = (cwd @ ''/'' @ r) @ ''/''" by simp
      then show ?thesis by blast
    qed
    with False show ?thesis by (simp add: Q_def)
  qed
  have "fs_key cwd (P @ s) = normalize_segments (\<not> a) Q @ [s]" if s: "single_segment s" for s
  proof -
    from single_segment_hd [OF s] have sp: "s \<noteq> []" "hd s \<noteq> CHR ''/''" by simp_all
    have hdPs: "(hd (P @ s) = CHR ''/'') = abs0"
      using sp by (cases P) (auto simp: abs0_def)
    have "resolve_collect (rev [P @ s] @ [cwd]) ([], False) = (Q @ s @ ''/'', a)"
      using sp hdPs by (auto simp: Q_def a_def resolve_collect_absolute)
    then have "fs_key cwd (P @ s) = normalize_segments (\<not> a) (Q @ s @ ''/'')"
      by (simp add: fs_key_def resolve_segments_def)
    with normalize_segments_snoc [OF s Qend] show ?thesis by simp
  qed
  then show ?thesis by blast
qed

lemma fs_key_posix_join:
  "\<exists>K. \<forall>s. single_segment s \<longrightarrow> fs_key cwd (posix_join g s) = K @ [s]"
proof -
  from posix_join_child [of g] obtain P where P: "P = [] \<or> (\<exists>r. P = r @ ''/'')"
    and j: "\<forall>s. single_segment s \<longrightarrow> posix_join g s = P @ s" by blast
  from fs_key_child [OF P, of cwd] j show ?thesis by auto
qed

lemma single_segment_build: "single_segment ''build''"
  by (simp add: single_segment_def)

lemma single_segment_build_metadata: "single_segment ''build-metadata''"
  by (simp add: single_segment_def)

lemma emptyDir_fs_sibling:
  assumes "s \<noteq> s'" and "prefix (K @ [s']) p"
  shows "stat (emptyDir_fs (K @ [s]) files) p = stat files p"
proof -
  from assms(2) obtain r where p: "p = K @ s' # r" by (auto simp: prefix_def)
  have "\<not> strict_prefix (K @ [s]) p" using assms(1) by (auto simp: p strict_prefix_def prefix_def)
  moreover have "\<not> prefix p (K @ [s])" using assms(1) by (auto simp: p prefix_def)
  ultimately show ?thesis by (simp add: stat_emptyDir_fs)
qed


lemma split_slash_no_slash: "s \<in> set (split_slash q) \<Longrightarrow> CHR ''/'' \<notin> set s"
proof (induction q arbitrary: s)
  case Nil
  then show ?case by simp
next
  case (Cons c q)
  then show ?case
    by (cases "split_slash q") (auto simp: split_slash_not_Nil split: if_splits)
qed

lemma normalize_step_proper:
  assumes "\<forall>s\<in>set res. single_segment s" and "CHR ''/'' \<notin> set seg"
  shows "\<forall>s\<in>set (normalize_step False res seg). single_segment s"
proof -
  have "set (butlast res) \<subseteq> set res" by (auto dest: in_set_butlastD)
  with assms show ?thesis
    by (auto simp: normalize_step_def single_segment_def)
qed

lemma foldl_normalize_step_proper:
  "\<forall>s\<in>set xs. CHR ''/'' \<notin> set s \<Longrightarrow>
     \<forall>s\<in>set (foldl (normalize_step False) [] xs). single_segment s"
proof (induction xs rule: rev_induct)
  case Nil
  show ?case by simp
next
  case (snoc x xs)
  then have "\<forall>s\<in>set (foldl (normalize_step False) [] xs). single_segment s"
    and "CHR ''/'' \<notin> set x" by simp_all
  from normalize_step_proper [OF this] show ?case by simp
qed

lemma normalize_segments_proper:
  "s \<in> set (normalize_segments False q) \<Longrightarrow> single_segment s"
  using foldl_normalize_step_proper [of "split_slash q"]
  by (auto simp: normalize_segments_def dest: split_slash_no_slash)

text \<open>Normalizing the rendering of proper segments gives the segments back.\<close>

lemma normalize_segments_rendered:
  "\<forall>s\<in>set segs. single_segment s \<Longrightarrow>
     normalize_segments al (''/'' @ join_slash segs @ ''/'') = segs"
proof (induction segs rule: rev_induct)
  case Nil
  show ?case by (simp add: normalize_segments_def normalize_step_empty)
next
  case (snoc n segs)
  then have n: "single_segment n" and ih:
    "normalize_segments al (''/'' @ join_slash segs @ ''/'') = segs" by simp_all
  show ?case
  proof (cases "segs = []")
    case True
    have "normalize_segments al (''/'' @ n @ ''/'') = normalize_segments al ''/'' @ [n]"
      by (rule normalize_segments_snoc [OF n]) (rule disjI2, rule exI [of _ "[]"], simp)
    then show ?thesis using True
      by (simp add: normalize_segments_def normalize_step_empty)
  next
    case False
    have "normalize_segments al ((''/'' @ join_slash segs @ ''/'') @ n @ ''/'') =
          normalize_segments al (''/'' @ join_slash segs @ ''/'') @ [n]"
      by (rule normalize_segments_snoc [OF n])
        (rule disjI2, rule exI [of _ "''/'' @ join_slash segs"], simp)
    with ih False show ?thesis by (simp add: join_slash_snoc)
  qed
qed

lemma resolve_collect_cwd_absolute:
  "posix_isAbsolute cwd \<Longrightarrow> snd (resolve_collect (ps @ [cwd]) (q, b)) = True"
proof (induction ps arbitrary: q b)
  case Nil
  then show ?case by (cases b) (simp_all add: posix_isAbsolute_def)
next
  case (Cons p ps)
  then show ?case by (cases b) (simp_all add: resolve_collect_absolute)
qed

lemma fs_key_of_resolved:
  assumes "posix_isAbsolute cwd"
  shows "fs_key cwd (posix_resolve_args cwd args) = snd (resolve_segments cwd args)"
proof -
  obtain R a where R: "resolve_collect (rev args @ [cwd]) ([], False) = (R, a)"
    by (cases "resolve_collect (rev args @ [cwd]) ([], False)")
  from resolve_collect_cwd_absolute [OF assms, of "rev args" "[]" False] R have a: "a = True"
    by simp
  define segs where "segs = normalize_segments False R"
  have rs: "resolve_segments cwd args = (True, segs)"
    using R a by (simp add: resolve_segments_def segs_def)
  then have p: "posix_resolve_args cwd args = ''/'' @ join_slash segs"
    by (simp add: posix_resolve_args_def)
  have proper: "\<forall>s\<in>set segs. single_segment s"
    by (auto simp: segs_def dest: normalize_segments_proper)
  have "resolve_collect (rev [''/'' @ join_slash segs] @ [cwd]) ([], False) =
        ((''/'' @ join_slash segs) @ ''/'', True)"
    by (simp add: resolve_collect_absolute)
  then have "fs_key cwd (''/'' @ join_slash segs) =
      normalize_segments False (''/'' @ join_slash segs @ ''/'')"
    by (simp add: fs_key_def resolve_segments_def)
  with normalize_segments_rendered [OF proper] p rs show ?thesis by simp
qed


text \<open>The location of a single segment resolved against a directory.\<close>

lemma fs_key_resolve_child:
  assumes "single_segment n" and "posix_isAbsolute cwd"
  shows "fs_key cwd (posix_resolve cwd dir n) = fs_key cwd dir @ [n]"
  using fs_key_of_resolved [OF assms(2), of "[dir, n]"]
    resolve_segments_child [OF assms(1), of cwd dir]
  by (simp add: posix_resolve_def fs_key_def)

text \<open>On a POSIX host the paths handed to rsync are absolute.\<close>

lemma posix_resolve_absolute:
  assumes "posix_isAbsolute cwd"
  shows "posix_isAbsolute (posix_resolve cwd a b)"
proof -
  obtain R x where R: "resolve_collect (rev [a, b] @ [cwd]) ([], False) = (R, x)"
    by (cases "resolve_collect (rev [a, b] @ [cwd]) ([], False)")
  from resolve_collect_cwd_absolute [OF assms, of "rev [a, b]" "[]" False] R have "x = True"
    by simp
  with R show ?thesis
    by (simp add: posix_resolve_def posix_resolve_args_def resolve_segments_def
        posix_isAbsolute_def)
qed

lemma posix_join_absolute:
  assumes "posix_isAbsolute a"
  shows "posix_isAbsolute (posix_join a b)"
proof -
  from assms have a: "a \<noteq> []" "hd a = CHR ''/''" by (simp_all add: posix_isAbsolute_def)
  have "posix_join a b = posix_normalize (if b = [] then a else a @ ''/'' @ b)"
    using a by (simp add: posix_join_def)
  moreover have "posix_isAbsolute (posix_normalize q)" if "q \<noteq> []" "hd q = CHR ''/''" for q
    using that by (simp add: posix_normalize_def posix_isAbsolute_def Let_def)
  ultimately show ?thesis using a by simp
qed

lemma stripWildcard_absolute:
  assumes "posix_isAbsolute p"
  shows "posix_isAbsolute (stripWildcard p)"
proof (cases "endsWith p ''/*''")
  case False
  with assms show ?thesis by (simp add: stripWildcard_def)
next
  case True
  then have "2 \<le> length p" by (simp add: endsWith_def)
  then obtain c d r where "p = c # d # r" by (cases p; cases "tl p") auto
  with assms True show ?thesis
    by (simp add: stripWildcard_def posix_isAbsolute_def)
qed

lemma absolute_not_delete: "posix_isAbsolute p \<Longrightarrow> p \<noteq> ''--delete''"
  by (auto simp: posix_isAbsolute_def)


subsection \<open>The build directories of modules\<close>

text \<open>
  Claim C7 as stated fails: \<open>buildPath\<close> resolves the name as a path, so the distinct
  names \<open>api\<close> and \<open>./api\<close> get the same directory, and a name such as \<open>../../src\<close> gets a
  directory outside the build directory.
\<close>

theorem buildPath_same_directory_for_distinct_names:
  "''api'' \<noteq> ''./api'' \<and>
   snd (buildPath (example_host never) example_buildDir ''api'') =
     Inr ''/proj/.garden/build/api'' \<and>
   snd (buildPath (example_host never) example_buildDir ''./api'') =
     Inr ''/proj/.garden/build/api'' \<and>
   snd (buildPath (example_host never) example_buildDir ''../../src'') =
     Inr ''/proj/src''"
  by code_simp

text \<open>
  Claim C7, amended. On a POSIX host, for module names that are single path segments,
  \<open>buildPath\<close> returns the same directory exactly for the same name, and the directory
  is the entry of that name in the build directory.
\<close>

theorem buildPath_of_single_segment_names:
  assumes "single_segment n" and "single_segment n'"
    and "snd (buildPath (posix_host cwd pl cyg key fl rt) this n) = Inr p"
    and "snd (buildPath (posix_host cwd pl cyg key fl rt) this n') = Inr p'"
  shows "(p = p' \<longleftrightarrow> n = n') \<and>
         (posix_isAbsolute cwd \<longrightarrow> fs_key cwd p = fs_key cwd (buildDirPath this) @ [n])"
proof -
  from assms(3) have p: "p = posix_resolve cwd (buildDirPath this) n"
    by (simp add: snd_buildPath posix_host_def split: if_splits)
  from assms(4) have p': "p' = posix_resolve cwd (buildDirPath this) n'"
    by (simp add: snd_buildPath posix_host_def split: if_splits)
  have inj: "p = p' \<longleftrightarrow> n = n'"
    using posix_resolve_child_inject [OF assms(1,2), of cwd "buildDirPath this"] p p' by auto
  have key: "fs_key cwd p = fs_key cwd (buildDirPath this) @ [n]" if "posix_isAbsolute cwd"
    using fs_key_of_resolved [OF that, of "[buildDirPath this, n]"]
      resolve_segments_child [OF assms(1), of cwd "buildDirPath this"]
    by (simp add: p posix_resolve_def fs_key_def)
  from inj key show ?thesis by blast
qed

text \<open>On the example: the build directories of \<open>web\<close> and \<open>lib\<close>.\<close>

theorem buildPath_of_single_segment_names_witness:
  "single_segment ''web'' \<and> single_segment ''lib'' \<and>
   snd (buildPath (posix_host ''/home/dev'' ''linux'' (\<lambda>p. p) example_getModuleKey never at_once)
          example_buildDir ''web'') = Inr ''/proj/.garden/build/web'' \<and>
   snd (buildPath (posix_host ''/home/dev'' ''linux'' (\<lambda>p. p) example_getModuleKey never at_once)
          example_buildDir ''lib'') = Inr ''/proj/.garden/build/lib'' \<and>
   posix_isAbsolute ''/home/dev'' \<and>
   ''/proj/.garden/build/web'' \<noteq> ''/proj/.garden/build/lib'' \<and>
   fs_key ''/home/dev'' ''/proj/.garden/build/web'' =
     fs_key ''/home/dev'' (buildDirPath example_buildDir) @ [''web'']"
proof -
  have s1: "single_segment ''web''" and s2: "single_segment ''lib''"
    by (simp_all add: single_segment_def)
  have b1: "snd (buildPath (posix_host ''/home/dev'' ''linux'' (\<lambda>p. p) example_getModuleKey never at_once)
          example_buildDir ''web'') = Inr ''/proj/.garden/build/web''"
    by code_simp
  have b2: "snd (buildPath (posix_host ''/home/dev'' ''linux'' (\<lambda>p. p) example_getModuleKey never at_once)
          example_buildDir ''lib'') = Inr ''/proj/.garden/build/lib''"
    by code_simp
  have ab: "posix_isAbsolute ''/home/dev''" by (simp add: posix_isAbsolute_def)
  from buildPath_of_single_segment_names [OF s1 s2 b1 b2] s1 s2 b1 b2 ab
  show ?thesis by simp
qed


subsection \<open>Clearing the build directory\<close>

text \<open>
  Claim C4 as stated fails. For the module name \<open>../build/web\<close>, \<open>buildMetadataPath\<close>
  returns \<open>/proj/.garden/build/web\<close>, a directory inside \<open>buildDirPath\<close>, and \<open>clear\<close>
  deletes what it holds.
\<close>

theorem clear_wipes_metadata_path_inside_buildDir:
  "snd (factory (example_host never) ''/proj'' ''/proj/.garden'') = Inr example_buildDir \<and>
   snd (buildMetadataPath (example_host never) example_buildDir ''../build/web'') =
     Inr ''/proj/.garden/build/web'' \<and>
   fs_key ''/home/dev'' ''/proj/.garden/build/web'' @ [''stale.txt''] =
     [''proj'', ''.garden'', ''build'', ''web'', ''stale.txt''] \<and>
   stat example_tree [''proj'', ''.garden'', ''build'', ''web'', ''stale.txt''] =
     Some (File ''old'') \<and>
   stat_after ''/home/dev'' (issued (clear (example_host never) example_buildDir)) example_tree
     [''proj'', ''.garden'', ''build'', ''web'', ''stale.txt''] = Some None"
proof (intro conjI)
  show "snd (factory (example_host never) ''/proj'' ''/proj/.garden'') = Inr example_buildDir"
    by code_simp
  show "snd (buildMetadataPath (example_host never) example_buildDir ''../build/web'') =
     Inr ''/proj/.garden/build/web''"
    by code_simp
  show "fs_key ''/home/dev'' ''/proj/.garden/build/web'' @ [''stale.txt''] =
     [''proj'', ''.garden'', ''build'', ''web'', ''stale.txt'']"
    by code_simp
  show "stat example_tree [''proj'', ''.garden'', ''build'', ''web'', ''stale.txt''] =
     Some (File ''old'')"
    by code_simp
  show "stat_after ''/home/dev'' (issued (clear (example_host never) example_buildDir))
     example_tree [''proj'', ''.garden'', ''build'', ''web'', ''stale.txt''] = Some None"
    by code_simp
qed

text \<open>
  Claim C4, amended. On a POSIX host, for a \<open>BuildDir\<close> made by \<open>factory\<close>, the only
  operation of \<open>clear\<close> is \<open>emptyDir(buildDirPath)\<close>, and when it succeeds it leaves every
  entry at or below \<open>buildMetadataDirPath\<close> as it was. When the module name is one path
  segment, the directory that \<open>buildMetadataPath\<close> returns is the entry of that name in
  \<open>buildMetadataDirPath\<close>, and what it holds is left as it was.
\<close>

theorem clear_keeps_build_metadata:
  assumes "snd (factory (posix_host cwd pl cyg key fl rt) projectRoot' gardenDirPath) = Inr this"
  shows "issued (clear (posix_host cwd pl cyg key fl rt) this) = [EmptyDir (buildDirPath this)] \<and>
         (prefix (fs_key cwd (buildMetadataDirPath this)) p \<and>
          fs_run cwd (issued (clear (posix_host cwd pl cyg key fl rt) this)) files =
            Some files' \<longrightarrow>
            stat files' p = stat files p) \<and>
         (single_segment moduleName \<and> posix_isAbsolute cwd \<and>
          snd (buildMetadataPath (posix_host cwd pl cyg key fl rt) this moduleName) = Inr q \<and>
          fs_run cwd (issued (clear (posix_host cwd pl cyg key fl rt) this)) files =
            Some files' \<longrightarrow>
            fs_key cwd q = fs_key cwd (buildMetadataDirPath this) @ [moduleName] \<and>
            stat files' (fs_key cwd q @ below) = stat files (fs_key cwd q @ below))"
proof -
  from assms have b: "buildDirPath this = posix_join gardenDirPath ''build''"
    and m: "buildMetadataDirPath this = posix_join gardenDirPath ''build-metadata''"
    by (auto simp: factory_def Let_def snd_await snd_ensureDir resolved_def posix_host_def
        split: if_splits)
  from fs_key_posix_join [of cwd gardenDirPath] obtain K
    where K: "\<forall>s. single_segment s \<longrightarrow> fs_key cwd (posix_join gardenDirPath s) = K @ [s]" ..
  from K single_segment_build b have kb: "fs_key cwd (buildDirPath this) = K @ [''build'']"
    by simp
  from K single_segment_build_metadata m
  have km: "fs_key cwd (buildMetadataDirPath this) = K @ [''build-metadata'']" by simp
  have ops: "issued (clear (posix_host cwd pl cyg key fl rt) this) = [EmptyDir (buildDirPath this)]"
    by (simp add: clear_def emptyDir_def issued_perform)
  have kept: "stat files' p' = stat files p'"
    if "prefix (fs_key cwd (buildMetadataDirPath this)) p'"
      and "fs_run cwd (issued (clear (posix_host cwd pl cyg key fl rt) this)) files = Some files'"
    for p'
  proof -
    have "stat (emptyDir_fs (K @ [''build'']) files) p' = stat files p'"
      by (rule emptyDir_fs_sibling) (use that km in simp_all)
    moreover from that(2) ops kb have "files' = emptyDir_fs (K @ [''build'']) files"
      by (simp add: fs_apply_def split: if_splits)
    ultimately show ?thesis by simp
  qed
  have per_module: "fs_key cwd q = fs_key cwd (buildMetadataDirPath this) @ [moduleName] \<and>
      stat files' (fs_key cwd q @ below) = stat files (fs_key cwd q @ below)"
    if s: "single_segment moduleName" and cwd: "posix_isAbsolute cwd"
      and q: "snd (buildMetadataPath (posix_host cwd pl cyg key fl rt) this moduleName) = Inr q"
      and run: "fs_run cwd (issued (clear (posix_host cwd pl cyg key fl rt) this)) files =
        Some files'"
  proof -
    from q have "q = posix_resolve cwd (buildMetadataDirPath this) moduleName"
      by (auto simp: buildMetadataPath_def Let_def snd_await snd_ensureDir resolved_def
          posix_host_def split: if_splits)
    with fs_key_resolve_child [OF s cwd]
    have k: "fs_key cwd q = fs_key cwd (buildMetadataDirPath this) @ [moduleName]" by simp
    then have "prefix (fs_key cwd (buildMetadataDirPath this)) (fs_key cwd q @ below)"
      by simp
    from kept [OF this run] k show ?thesis by simp
  qed
  from ops kept per_module show ?thesis by blast
qed

text \<open>On the example: the recorded version of \<open>web\<close> survives \<open>clear\<close>.\<close>

theorem clear_keeps_build_metadata_witness:
  "snd (factory (posix_host ''/home/dev'' ''linux'' (\<lambda>p. p) example_getModuleKey never at_once)
         ''/proj'' ''/proj/.garden'') = Inr example_buildDir \<and>
   single_segment ''web'' \<and> posix_isAbsolute ''/home/dev'' \<and>
   snd (buildMetadataPath
          (posix_host ''/home/dev'' ''linux'' (\<lambda>p. p) example_getModuleKey never at_once)
          example_buildDir ''web'') = Inr ''/proj/.garden/build-metadata/web'' \<and>
   prefix (fs_key ''/home/dev'' (buildMetadataDirPath example_buildDir))
     [''proj'', ''.garden'', ''build-metadata'', ''web'', ''version''] \<and>
   fs_key ''/home/dev'' ''/proj/.garden/build-metadata/web'' @ [''version''] =
     [''proj'', ''.garden'', ''build-metadata'', ''web'', ''version''] \<and>
   fs_run ''/home/dev''
     (issued (clear (posix_host ''/home/dev'' ''linux'' (\<lambda>p. p) example_getModuleKey never at_once)
            example_buildDir))
     example_tree = Some (emptyDir_fs [''proj'', ''.garden'', ''build''] example_tree) \<and>
   stat (emptyDir_fs [''proj'', ''.garden'', ''build''] example_tree)
     [''proj'', ''.garden'', ''build-metadata'', ''web'', ''version''] = Some (File ''v-1'')"
proof -
  let ?h = "posix_host ''/home/dev'' ''linux'' (\<lambda>p. p) example_getModuleKey never at_once"
  let ?p = "[''proj'', ''.garden'', ''build-metadata'', ''web'', ''version'']"
  let ?after = "emptyDir_fs [''proj'', ''.garden'', ''build''] example_tree"
  have f: "snd (factory ?h ''/proj'' ''/proj/.garden'') = Inr example_buildDir"
    by code_simp
  have s: "single_segment ''web''" by (simp add: single_segment_def)
  have cwd: "posix_isAbsolute ''/home/dev''" by (simp add: posix_isAbsolute_def)
  have q: "snd (buildMetadataPath ?h example_buildDir ''web'') =
      Inr ''/proj/.garden/build-metadata/web''"
    by code_simp
  have pre: "prefix (fs_key ''/home/dev'' (buildMetadataDirPath example_buildDir)) ?p"
    by code_simp
  have k: "fs_key ''/home/dev'' ''/proj/.garden/build-metadata/web'' @ [''version''] = ?p"
    by code_simp
  have run: "fs_run ''/home/dev'' (issued (clear ?h example_buildDir)) example_tree =
      Some ?after"
    by code_simp
  have before: "stat example_tree ?p = Some (File ''v-1'')"
    by code_simp
  from clear_keeps_build_metadata [OF f, where moduleName = "''web''"
      and q = "''/proj/.garden/build-metadata/web''" and p = ?p
      and files = example_tree and files' = ?after and below = "[''version'']"] s cwd q pre run
  have "stat ?after ?p = stat example_tree ?p"
    by blast
  from this before have "stat ?after ?p = Some (File ''v-1'')"
    by (rule trans)
  with f s cwd q pre k run show ?thesis by blast
qed


subsection \<open>Dependency staging runs rsync without \<open>--delete\<close>\<close>

text \<open>
  Claim C3. Every process that \<open>syncDependencyProducts\<close> starts is \<open>rsync\<close> with exactly
  the two options \<open>-rptgo\<close> and \<open>--exclude=<buildDirPath>\<close>, followed by the source and
  the destination path: no sync of a copy spec is given \<open>--delete\<close>. On a POSIX host
  the two paths are absolute, so that \<open>--delete\<close> is none of the arguments.
\<close>

theorem syncDependencyProducts_without_delete:
  "Execa cmd args \<in> set (issued (syncDependencyProducts h this m)) \<Longrightarrow>
     cmd = ''rsync'' \<and>
     (\<exists>sourcePath destinationPath.
        args = [''-rptgo'', ''--exclude='' @ buildDirPath this, sourcePath, destinationPath]) \<and>
     (h = posix_host cwd pl cyg key fl rt \<and> posix_isAbsolute cwd \<and> pl \<noteq> ''win32'' \<longrightarrow>
        ''--delete'' \<notin> set args)"
proof -
  assume mem: "Execa cmd args \<in> set (issued (syncDependencyProducts h this m))"
  from syncDependencyProducts_op_origin [OF mem]
  obtain d :: BuildDependencyConfig and c :: FileCopySpec
    where "Execa cmd args \<in> set (issued (sync h this
        (join h (resolve h (buildDirPath this) (getModuleKey h (dep_name d) (plugin d)))
           (source c))
        (join h (resolve h (buildDirPath this) (name m)) (target c)) False))"
    by auto
  from sync_Execa [OF this] have cmd: "cmd = ''rsync''"
    and args: "args = [''-rptgo'', ''--exclude='' @ buildDirPath this,
        rsyncPath h (join h (resolve h (buildDirPath this)
          (getModuleKey h (dep_name d) (plugin d))) (source c)),
        rsyncPath h (join h (resolve h (buildDirPath this) (name m)) (target c))]"
    by (simp_all add: syncOpts_def)
  have "''--delete'' \<notin> set args"
    if h: "h = posix_host cwd pl cyg key fl rt" and cwd: "posix_isAbsolute cwd"
      and pl: "pl \<noteq> ''win32''"
  proof -
    have abs: "posix_isAbsolute (rsyncPath h (join h (resolve h (buildDirPath this) n) q))"
      for n q
      using pl
      by (simp add: h posix_host_def rsyncPath_def stripWildcard_absolute
          posix_join_absolute posix_resolve_absolute [OF cwd])
    have "''--delete'' \<noteq> rsyncPath h (join h (resolve h (buildDirPath this) n) q)" for n q
      using absolute_not_delete [OF abs, of n q] by (rule not_sym)
    then show ?thesis by (simp add: args)
  qed
  with cmd args show ?thesis by blast
qed

text \<open>On the example: the rsync call for the first copy spec of \<open>lib\<close>.\<close>

theorem syncDependencyProducts_without_delete_witness:
  "Execa ''rsync''
     [''-rptgo'', ''--exclude=/proj/.garden/build'',
      ''/proj/.garden/build/lib/dist'', ''/proj/.garden/build/web/vendor/lib'']
   \<in> set (issued (syncDependencyProducts (example_host never) example_buildDir example_module)) \<and>
   (\<exists>sourcePath destinationPath.
      [''-rptgo'', ''--exclude=/proj/.garden/build'',
       ''/proj/.garden/build/lib/dist'', ''/proj/.garden/build/web/vendor/lib''] =
      [''-rptgo'', ''--exclude='' @ buildDirPath example_buildDir, sourcePath, destinationPath]) \<and>
   example_host never =
     posix_host ''/home/dev'' ''linux'' (\<lambda>p. p) example_getModuleKey never at_once \<and>
   posix_isAbsolute ''/home/dev'' \<and> ''linux'' \<noteq> ''win32'' \<and>
   ''--delete'' \<notin> set [''-rptgo'', ''--exclude=/proj/.garden/build'',
      ''/proj/.garden/build/lib/dist'', ''/proj/.garden/build/web/vendor/lib'']"
proof -
  have mem: "Execa ''rsync''
     [''-rptgo'', ''--exclude=/proj/.garden/build'',
      ''/proj/.garden/build/lib/dist'', ''/proj/.garden/build/web/vendor/lib'']
     \<in> set (issued (syncDependencyProducts (example_host never) example_buildDir example_module))"
    by (simp add: example_syncDependencyProducts issued_def)
  have h: "example_host never =
     posix_host ''/home/dev'' ''linux'' (\<lambda>p. p) example_getModuleKey never at_once"
    by (simp add: example_host_def)
  have cwd: "posix_isAbsolute ''/home/dev''" by (simp add: posix_isAbsolute_def)
  have pl: "''linux'' \<noteq> ''win32''" by simp
  from syncDependencyProducts_without_delete [OF mem, of "''/home/dev''" "''linux''"
      "\<lambda>p. p" example_getModuleKey never at_once] mem h cwd pl
  show ?thesis by blast
qed


end
